theory Spec2Isabelle
  imports Complex_Main "HOL-Library.AList" "HOL-Library.Multiset"
begin

section \<open>Values, errors and the activity store\<close>

text \<open>
  What \<^verbatim>\<open>json.load\<close> returns. A Python dict keeps its keys in insertion order, so an
  object is an association list (keys distinct); a number is a rational, which is how
  Python compares and equates ints and finite floats. NaN and the infinities, which
  are not JSON, are left out.
\<close>

datatype json =
    JNull
  | JBool bool
  | JNum rat
  | JStr string
  | JArr "json list"
  | JObj "(string \<times> json) list"

text \<open>The exceptions the code can meet; each \<^verbatim>\<open>except\<close> clause is a case on them.\<close>

datatype error =
    JSONDecodeError
  | OSError
  | TypeError
  | AttributeError
  | KeyError
  | ValueError
  | CursesError

text \<open>
  The file system below \<^verbatim>\<open>activity_logs\<close>: a path is the list of its parts, a node is
  a directory or a file. The text of a file is represented by what the JSON parser makes
  of it: \<open>Malformed\<close> when \<^verbatim>\<open>json.load\<close> raises \<^verbatim>\<open>JSONDecodeError\<close>, the parsed value
  otherwise.
\<close>

datatype content = Malformed | Json json

datatype node = Dir | File content

type_synonym path = "string list"

type_synonym fs = "path \<Rightarrow> node option"

definition path_exists :: "fs \<Rightarrow> path \<Rightarrow> bool" where
  "path_exists fs p = (fs p \<noteq> None)"

text \<open>\<^verbatim>\<open>with open(path) as f: json.load(f)\<close>. Opening a directory or a missing path is an
  \<^verbatim>\<open>OSError\<close>.\<close>

definition json_load :: "fs \<Rightarrow> path \<Rightarrow> error + json" where
  "json_load fs p =
     (case fs p of
        None \<Rightarrow> Inl OSError
      | Some Dir \<Rightarrow> Inl OSError
      | Some (File Malformed) \<Rightarrow> Inl JSONDecodeError
      | Some (File (Json j)) \<Rightarrow> Inr j)"

text \<open>The seven component tags, in the order in which every loop of the source visits
  them (the literal list of \<^verbatim>\<open>__init__\<close> and the insertion order of \<^verbatim>\<open>paths\<close>).\<close>

definition components :: "string list" where
  "components =
     [''cognitive'', ''sensory'', ''ml'', ''browser'', ''terminal'', ''personality'',
      ''emergency'']"

definition echo_dir :: path where
  "echo_dir = [''activity_logs'']"

definition activity_file :: "string \<Rightarrow> path" where
  "activity_file c = echo_dir @ [c, ''activity.json'']"

definition max_items :: nat where
  "max_items = 100"

text \<open>The slice \<^verbatim>\<open>xs[-n:]\<close> for a positive \<open>n\<close>: the last \<open>n\<close> items, all of them when
  there are fewer.\<close>

definition last_items :: "nat \<Rightarrow> 'a list \<Rightarrow> 'a list" where
  "last_items n xs = drop (length xs - n) xs"

text \<open>\<^verbatim>\<open>data['history'][-self.max_items:]\<close>: a list and a string can be sliced, any other
  value raises. (A string is sliced by characters.)\<close>

definition slice_last :: "json \<Rightarrow> error + json" where
  "slice_last h =
     (case h of
        JArr xs \<Rightarrow> Inr (JArr (last_items max_items xs))
      | JStr s \<Rightarrow> Inr (JStr (last_items max_items s))
      | _ \<Rightarrow> Inl TypeError)"

section \<open>The dashboard object\<close>

datatype stream_type =
  All | Cognitive | Sensory | Ml | Browser | Terminal | Personality | Emergency

fun stream_value :: "stream_type \<Rightarrow> string" where
  "stream_value All = ''all''"
| "stream_value Cognitive = ''cognitive''"
| "stream_value Sensory = ''sensory''"
| "stream_value Ml = ''ml''"
| "stream_value Browser = ''browser''"
| "stream_value Terminal = ''terminal''"
| "stream_value Personality = ''personality''"
| "stream_value Emergency = ''emergency''"

text \<open>One reading of \<^verbatim>\<open>psutil\<close> and the clock, as \<^verbatim>\<open>update_system_stats\<close> stores it.\<close>

record sample =
  cpu :: rat
  memory :: rat
  disk :: rat
  stamp :: string

text \<open>
  The fields of \<^verbatim>\<open>ActivityStream\<close>. The dicts \<^verbatim>\<open>self.activities\<close> and
  \<^verbatim>\<open>self.system_stats\<close> are objects that \<^verbatim>\<open>last_screen_state\<close> refers to, not copies,
  so they live in a store and the fields hold their addresses. \<^verbatim>\<open>last_screen_state\<close> is
  \<open>None\<close> for the empty dict of \<^verbatim>\<open>__init__\<close> and \<open>Some (a, s)\<close> for
  \<^verbatim>\<open>{'activities': a, 'stats': s}\<close>. A stats object is \<open>None\<close> for \<^verbatim>\<open>{}\<close>.
\<close>

type_synonym addr = nat

type_synonym activities_dict = "string \<rightharpoonup> json"

record stream =
  stream_type :: stream_type
  last_update :: rat
  running :: bool
  activities :: addr
  system_stats :: addr
  last_screen_state :: "(addr \<times> addr) option"
  act_store :: "addr \<Rightarrow> activities_dict"
  stat_store :: "addr \<Rightarrow> sample option"
  next_addr :: addr

text \<open>\<^verbatim>\<open>{k: [] for k in self.paths.keys()}\<close>\<close>

definition empty_activities :: activities_dict where
  "empty_activities = map_of (map (\<lambda>c. (c, JArr [])) components)"

text \<open>The state part of \<^verbatim>\<open>__init__\<close> (the files it creates are \<open>init_store\<close> below).\<close>

definition init_stream :: "stream_type \<Rightarrow> stream" where
  "init_stream t =
     \<lparr> stream_type = t, last_update = 0, running = True,
       activities = 0, system_stats = 0, last_screen_state = None,
       act_store = (\<lambda>_. empty_activities), stat_store = (\<lambda>_. None), next_addr = 1 \<rparr>"

section \<open>The Collector: \<^verbatim>\<open>update_activities\<close>\<close>

text \<open>
  The body of the inner \<^verbatim>\<open>try\<close> for one component. A list is clipped, a dict with a
  \<^verbatim>\<open>history\<close> key gives its clipped history, another dict is a single record, any other
  value leaves the entry as it is. The debug \<^verbatim>\<open>print\<close>s are not modelled.
\<close>

definition refresh_entry :: "fs \<Rightarrow> string \<Rightarrow> activities_dict \<Rightarrow> error + activities_dict" where
  "refresh_entry fs c acts =
     (case json_load fs (activity_file c) of
        Inl e \<Rightarrow> Inl e
      | Inr (JArr xs) \<Rightarrow> Inr (acts(c \<mapsto> JArr (last_items max_items xs)))
      | Inr (JObj d) \<Rightarrow>
          (case map_of d ''history'' of
             Some h \<Rightarrow>
               (case slice_last h of
                  Inl e \<Rightarrow> Inl e
                | Inr v \<Rightarrow> Inr (acts(c \<mapsto> v)))
           | None \<Rightarrow> Inr (acts(c \<mapsto> JArr [JObj d])))
      | Inr _ \<Rightarrow> Inr acts)"

text \<open>One turn of the loop: \<^verbatim>\<open>if path.exists()\<close>, then the inner \<^verbatim>\<open>try\<close>, whose
  \<^verbatim>\<open>except Exception\<close> only prints.\<close>

definition update_entry :: "fs \<Rightarrow> activities_dict \<Rightarrow> string \<Rightarrow> activities_dict" where
  "update_entry fs acts c =
     (if path_exists fs (activity_file c)
      then (case refresh_entry fs c acts of Inl e \<Rightarrow> acts | Inr acts' \<Rightarrow> acts')
      else acts)"

text \<open>
  \<^verbatim>\<open>update_activities\<close>: the loop over \<^verbatim>\<open>self.paths\<close>, writing into the dict object that
  \<^verbatim>\<open>self.activities\<close> refers to. Nothing outside the inner \<^verbatim>\<open>try\<close> can raise here, so
  the outer \<^verbatim>\<open>except\<close> has no case.
\<close>

definition update_activities :: "fs \<Rightarrow> stream \<Rightarrow> stream" where
  "update_activities fs st =
     st\<lparr> act_store := (act_store st)
           (activities st := fold (\<lambda>c a. update_entry fs a c) components
                               (act_store st (activities st))) \<rparr>"

text \<open>The entry of a component in \<^verbatim>\<open>self.activities\<close>.\<close>

definition cached :: "stream \<Rightarrow> string \<Rightarrow> json option" where
  "cached st c = act_store st (activities st) c"

section \<open>Properties of the Collector\<close>

lemma update_entry_other: "k \<noteq> c \<Longrightarrow> update_entry fs a k c = a c"
  by (auto simp: update_entry_def refresh_entry_def slice_last_def
      split: sum.splits json.splits option.splits)

lemma update_entry_cong: "a c = b c \<Longrightarrow> update_entry fs a c c = update_entry fs b c c"
  by (auto simp: update_entry_def refresh_entry_def slice_last_def
      split: sum.splits json.splits option.splits)

lemma fold_update_entry_other:
  "c \<notin> set cs \<Longrightarrow> fold (\<lambda>k a. update_entry fs a k) cs a c = a c"
  by (induction cs arbitrary: a) (auto simp: update_entry_other)

lemma fold_update_entry_at:
  "distinct cs \<Longrightarrow> c \<in> set cs \<Longrightarrow>
   fold (\<lambda>k a. update_entry fs a k) cs a c = update_entry fs a c c"
proof (induction cs arbitrary: a)
  case Nil
  then show ?case by simp
next
  case (Cons k cs)
  show ?case
  proof (cases "k = c")
    case True
    with Cons.prems have "c \<notin> set cs" by simp
    with True show ?thesis by (simp add: fold_update_entry_other)
  next
    case False
    with Cons.prems have "distinct cs" "c \<in> set cs" by simp_all
    then have "fold (\<lambda>k a. update_entry fs a k) cs (update_entry fs a k) c
        = update_entry fs (update_entry fs a k) c c"
      by (rule Cons.IH)
    also have "\<dots> = update_entry fs a c c"
      by (rule update_entry_cong) (simp add: update_entry_other False)
    finally show ?thesis by simp
  qed
qed

lemma distinct_components: "distinct components"
  by (simp add: components_def)

lemma cached_update_activities:
  "c \<in> set components \<Longrightarrow>
   cached (update_activities fs st) c = update_entry fs (act_store st (activities st)) c c"
  by (simp add: cached_def update_activities_def fold_update_entry_at distinct_components)

lemma cached_init_stream:
  "c \<in> set components \<Longrightarrow> cached (init_stream t) c = Some (JArr [])"
  by (auto simp: cached_def init_stream_def empty_activities_def components_def)


text \<open>A store holding the two directories and the log file of one component, with
  the given content; used for the concrete inputs below.\<close>

definition one_file :: "string \<Rightarrow> content \<Rightarrow> fs" where
  "one_file c x =
     (\<lambda>p. if p = echo_dir \<or> p = echo_dir @ [c] then Some Dir
          else if p = activity_file c then Some (File x)
          else None)"

lemma one_file_at [simp]: "one_file c x (activity_file c) = Some (File x)"
  by (simp add: one_file_def activity_file_def echo_dir_def)

text \<open>A store with the log files of two components.\<close>

definition two_files :: "string \<Rightarrow> content \<Rightarrow> string \<Rightarrow> content \<Rightarrow> fs" where
  "two_files c x c' x' =
     (one_file c x)(echo_dir @ [c'] \<mapsto> Dir, activity_file c' \<mapsto> File x')"

lemma update_entry_malformed:
  "fs (activity_file c) = Some (File Malformed) \<Longrightarrow> update_entry fs a c = a"
  by (simp add: update_entry_def refresh_entry_def json_load_def)

lemma update_entry_array:
  "fs (activity_file c) = Some (File (Json (JArr rs))) \<Longrightarrow>
   update_entry fs a c c = Some (JArr (last_items max_items rs))"
  by (simp add: update_entry_def refresh_entry_def json_load_def path_exists_def)

lemma update_entry_history:
  "fs (activity_file c) = Some (File (Json (JObj w))) \<Longrightarrow>
   map_of w ''history'' = Some (JArr rs) \<Longrightarrow>
   update_entry fs a c c = Some (JArr (last_items max_items rs))"
  by (simp add: update_entry_def refresh_entry_def json_load_def path_exists_def
      slice_last_def)

lemma update_entry_bare:
  "fs (activity_file c) = Some (File (Json (JObj d))) \<Longrightarrow>
   map_of d ''history'' = None \<Longrightarrow>
   update_entry fs a c c = Some (JArr [JObj d])"
  by (simp add: update_entry_def refresh_entry_def json_load_def path_exists_def)

lemma last_items_short: "length xs \<le> n \<Longrightarrow> last_items n xs = xs"
  by (simp add: last_items_def)


text \<open>
  Claim C5. When the log file of a component does not parse, \<^verbatim>\<open>json.load\<close> raises
  inside the inner \<^verbatim>\<open>try\<close>, the \<^verbatim>\<open>except\<close> swallows it, and \<^verbatim>\<open>update_activities\<close>
  returns with that component's cached list unchanged; after the first read of a
  malformed file the cache is still the empty list of \<^verbatim>\<open>__init__\<close>.
\<close>

theorem update_activities_parse_failure:
  assumes "c \<in> set components"
    and "fs (activity_file c) = Some (File Malformed)"
  shows "refresh_entry fs c a = Inl JSONDecodeError
       \<and> cached (update_activities fs st) c = cached st c
       \<and> cached (update_activities fs (init_stream t)) c = Some (JArr [])"
proof -
  have "refresh_entry fs c a = Inl JSONDecodeError"
    using assms(2) by (simp add: refresh_entry_def json_load_def)
  moreover have keep: "cached (update_activities fs s) c = cached s c" for s
    using assms by (simp add: cached_update_activities update_entry_malformed) (simp add: cached_def)
  moreover have "cached (update_activities fs (init_stream t)) c = Some (JArr [])"
    using assms(1) by (simp add: keep cached_init_stream)
  ultimately show ?thesis by simp
qed

theorem update_activities_parse_failure_witness:
  "refresh_entry (one_file ''browser'' Malformed) ''browser'' empty_activities
     = Inl JSONDecodeError
   \<and> cached (update_activities (one_file ''browser'' Malformed)
        (update_activities (one_file ''browser'' (Json (JArr [JObj [(''time'', JNum 7)]])))
           (init_stream All))) ''browser''
     = Some (JArr [JObj [(''time'', JNum 7)]])
   \<and> cached (update_activities (one_file ''browser'' Malformed) (init_stream All)) ''browser''
     = Some (JArr [])"
proof -
  have c: "''browser'' \<in> set components"
    by (simp add: components_def)
  have m: "one_file ''browser'' Malformed (activity_file ''browser'') = Some (File Malformed)"
    by simp
  have "cached (update_activities (one_file ''browser'' (Json (JArr [JObj [(''time'', JNum 7)]])))
           (init_stream All)) ''browser'' = Some (JArr [JObj [(''time'', JNum 7)]])"
    using c by (simp add: cached_update_activities update_entry_array last_items_short
        max_items_def)
  then show ?thesis
    using c m update_activities_parse_failure [of "''browser''" "one_file ''browser'' Malformed"
        empty_activities
        "update_activities (one_file ''browser'' (Json (JArr [JObj [(''time'', JNum 7)]])))
           (init_stream All)" All]
    by simp
qed


text \<open>
  Claim C6, as stated, fails: a single record that itself carries a \<^verbatim>\<open>history\<close> field is
  taken for the wrapper when it is written bare, so the bare shape and the array shape
  of the same record give different lists.
\<close>

theorem bare_record_with_history_counterexample:
  "cached (update_activities
       (one_file ''ml'' (Json (JArr [JObj [(''time'', JNum 1), (''history'', JArr [JNum 5])]])))
       (init_stream All)) ''ml''
     = Some (JArr [JObj [(''time'', JNum 1), (''history'', JArr [JNum 5])]])
   \<and> cached (update_activities
       (one_file ''ml'' (Json (JObj [(''time'', JNum 1), (''history'', JArr [JNum 5])])))
       (init_stream All)) ''ml''
     = Some (JArr [JNum 5])"
proof -
  have c: "''ml'' \<in> set components"
    by (simp add: components_def)
  show ?thesis
    using c
    by (simp add: cached_update_activities update_entry_array update_entry_history
        last_items_short max_items_def)
qed

text \<open>
  Claim C6, amended. For every list of records, the array and an object whose
  \<^verbatim>\<open>history\<close> key holds that array give the same cached list (the last 100 of them); and
  for a single record that has no \<^verbatim>\<open>history\<close> key of its own, the bare record object
  gives that same list too.
\<close>

theorem payload_shapes_agree:
  assumes "c \<in> set components"
    and "fs_a (activity_file c) = Some (File (Json (JArr rs)))"
    and "fs_h (activity_file c) = Some (File (Json (JObj w)))"
    and "map_of w ''history'' = Some (JArr rs)"
  shows "cached (update_activities fs_a st) c = Some (JArr (last_items max_items rs))
       \<and> cached (update_activities fs_h st) c = cached (update_activities fs_a st) c
       \<and> (fs_b (activity_file c) = Some (File (Json (JObj d))) \<and> map_of d ''history'' = None
            \<and> rs = [JObj d]
          \<longrightarrow> cached (update_activities fs_b st) c = cached (update_activities fs_a st) c)"
proof -
  have a: "cached (update_activities fs_a st) c = Some (JArr (last_items max_items rs))"
    using assms(1,2) by (simp add: cached_update_activities update_entry_array)
  have h: "cached (update_activities fs_h st) c = Some (JArr (last_items max_items rs))"
    using assms(1,3,4) by (simp add: cached_update_activities update_entry_history)
  have b: "cached (update_activities fs_b st) c = Some (JArr [JObj d])"
    if "fs_b (activity_file c) = Some (File (Json (JObj d)))" "map_of d ''history'' = None"
    using assms(1) that by (simp add: cached_update_activities update_entry_bare)
  have "last_items max_items [JObj d] = [JObj d]"
    by (simp add: last_items_short max_items_def)
  with a h b show ?thesis by auto
qed

theorem payload_shapes_agree_witness:
  "cached (update_activities
       (one_file ''ml'' (Json (JArr [JObj [(''time'', JNum 1000), (''description'', JStr ''trial 1'')]])))
       (init_stream All)) ''ml''
     = Some (JArr [JObj [(''time'', JNum 1000), (''description'', JStr ''trial 1'')]])
   \<and> cached (update_activities
       (one_file ''ml'' (Json (JObj [(''history'',
          JArr [JObj [(''time'', JNum 1000), (''description'', JStr ''trial 1'')]])])))
       (init_stream All)) ''ml''
     = Some (JArr [JObj [(''time'', JNum 1000), (''description'', JStr ''trial 1'')]])
   \<and> cached (update_activities
       (one_file ''ml'' (Json (JObj [(''time'', JNum 1000), (''description'', JStr ''trial 1'')])))
       (init_stream All)) ''ml''
     = Some (JArr [JObj [(''time'', JNum 1000), (''description'', JStr ''trial 1'')]])"
proof -
  have c: "''ml'' \<in> set components"
    by (simp add: components_def)
  have l: "last_items max_items [JObj [(''time'', JNum 1000), (''description'', JStr ''trial 1'')]]
      = [JObj [(''time'', JNum 1000), (''description'', JStr ''trial 1'')]]"
    by (simp add: last_items_short max_items_def)
  show ?thesis
    using c l payload_shapes_agree [of "''ml''"
        "one_file ''ml'' (Json (JArr [JObj [(''time'', JNum 1000), (''description'', JStr ''trial 1'')]]))"
        "[JObj [(''time'', JNum 1000), (''description'', JStr ''trial 1'')]]"
        "one_file ''ml'' (Json (JObj [(''history'',
          JArr [JObj [(''time'', JNum 1000), (''description'', JStr ''trial 1'')]])]))"
        "[(''history'', JArr [JObj [(''time'', JNum 1000), (''description'', JStr ''trial 1'')]])]"
        "init_stream All"
        "one_file ''ml'' (Json (JObj [(''time'', JNum 1000), (''description'', JStr ''trial 1'')]))"
        "[(''time'', JNum 1000), (''description'', JStr ''trial 1'')]"]
    by simp
qed

section \<open>The Timeline Merger and the Renderer: \<^verbatim>\<open>update_display\<close>\<close>

text \<open>What a \<^verbatim>\<open>for\<close> loop over a loaded value visits: the items of a list, the keys of a
  dict, the characters of a string; any other value is not iterable.\<close>

definition iterate :: "json \<Rightarrow> error + json list" where
  "iterate j =
     (case j of
        JArr xs \<Rightarrow> Inr xs
      | JObj d \<Rightarrow> Inr (map (\<lambda>kv. JStr (fst kv)) d)
      | JStr s \<Rightarrow> Inr (map (\<lambda>ch. JStr [ch]) s)
      | _ \<Rightarrow> Inl TypeError)"

text \<open>\<^verbatim>\<open>activity['component'] = component\<close>: item assignment on a dict replaces the value
  of an existing key in place and appends a new key; on any other value it raises.\<close>

definition stamp_record :: "string \<Rightarrow> json \<Rightarrow> error + json" where
  "stamp_record c a =
     (case a of
        JObj d \<Rightarrow> Inr (JObj (AList.update ''component'' (JStr c) d))
      | _ \<Rightarrow> Inl TypeError)"

fun stamp_all :: "string \<Rightarrow> json list \<Rightarrow> error + json list" where
  "stamp_all c [] = Inr []"
| "stamp_all c (a # as) =
     (case stamp_record c a of
        Inl e \<Rightarrow> Inl e
      | Inr a' \<Rightarrow> (case stamp_all c as of Inl e \<Rightarrow> Inl e | Inr as' \<Rightarrow> Inr (a' # as')))"

text \<open>
  The \<^verbatim>\<open>ALL\<close> branch: every existing file is loaded, its items are stamped and appended
  to \<^verbatim>\<open>activities\<close>. Only \<^verbatim>\<open>JSONDecodeError\<close> is passed over; any other exception
  leaves the loop. (\<^verbatim>\<open>extend\<close> runs after the stamping loop, so it only ever adds the
  stamped items of a list, or nothing for an empty dict or string.)
\<close>

fun gather_all :: "fs \<Rightarrow> string list \<Rightarrow> json list \<Rightarrow> error + json list" where
  "gather_all fs [] acc = Inr acc"
| "gather_all fs (c # cs) acc =
     (if path_exists fs (activity_file c)
      then (case json_load fs (activity_file c) of
              Inl JSONDecodeError \<Rightarrow> gather_all fs cs acc
            | Inl e \<Rightarrow> Inl e
            | Inr j \<Rightarrow>
                (case iterate j of
                   Inl e \<Rightarrow> Inl e
                 | Inr xs \<Rightarrow>
                     (case stamp_all c xs of
                        Inl e \<Rightarrow> Inl e
                      | Inr ys \<Rightarrow> gather_all fs cs (acc @ ys))))
      else gather_all fs cs acc)"

text \<open>
  The branch for one component: \<^verbatim>\<open>activities\<close> becomes the loaded value itself, with
  its items stamped. It stays the empty list when the file is absent or does not parse.
\<close>

definition gather_one :: "fs \<Rightarrow> string \<Rightarrow> error + json" where
  "gather_one fs c =
     (if path_exists fs (activity_file c)
      then (case json_load fs (activity_file c) of
              Inl JSONDecodeError \<Rightarrow> Inr (JArr [])
            | Inl e \<Rightarrow> Inl e
            | Inr j \<Rightarrow>
                (case iterate j of
                   Inl e \<Rightarrow> Inl e
                 | Inr xs \<Rightarrow>
                     (case stamp_all c xs of
                        Inl e \<Rightarrow> Inl e
                      | Inr ys \<Rightarrow> Inr (case j of JArr _ \<Rightarrow> JArr ys | _ \<Rightarrow> j))))
      else Inr (JArr []))"

definition gather :: "stream_type \<Rightarrow> fs \<Rightarrow> error + json" where
  "gather t fs =
     (if t = All
      then (case gather_all fs components [] of Inl e \<Rightarrow> Inl e | Inr xs \<Rightarrow> Inr (JArr xs))
      else gather_one fs (stream_value t))"

text \<open>\<^verbatim>\<open>d.get(k, default)\<close>\<close>

definition dict_get :: "(string \<times> json) list \<Rightarrow> string \<Rightarrow> json \<Rightarrow> json" where
  "dict_get d k dflt = (case map_of d k of None \<Rightarrow> dflt | Some v \<Rightarrow> v)"

text \<open>
  The sort key \<^verbatim>\<open>x.get('time', 0)\<close> of a dict. (\<open>sort_by_time\<close> below takes it of
  dicts only; for any other value \<^verbatim>\<open>get\<close> raises, which \<open>sort_by_time\<close> tests first.)
\<close>

definition time_key :: "json \<Rightarrow> json" where
  "time_key x = (case x of JObj d \<Rightarrow> dict_get d ''time'' (JNum 0) | _ \<Rightarrow> JNull)"

text \<open>
  How Python compares loaded values. A number is an int or a float, and \<^verbatim>\<open>True\<close> and
  \<^verbatim>\<open>False\<close> are the numbers 1 and 0. \<^verbatim>\<open>==\<close> never raises: numbers are equal by value,
  strings and lists item by item, dicts when they have the same keys with equal values,
  in any order, and values of different kinds are unequal.
\<close>

definition num_val :: "json \<Rightarrow> rat option" where
  "num_val a =
     (case a of
        JNum r \<Rightarrow> Some r
      | JBool b \<Rightarrow> Some (if b then 1 else 0)
      | _ \<Rightarrow> None)"

fun py_eq :: "json \<Rightarrow> json \<Rightarrow> bool"
  and py_eq_list :: "json list \<Rightarrow> json list \<Rightarrow> bool"
  and py_eq_dict :: "(string \<times> json) list \<Rightarrow> (string \<times> json) list \<Rightarrow> bool" where
  "py_eq (JArr xs) b = (case b of JArr ys \<Rightarrow> py_eq_list xs ys | _ \<Rightarrow> False)"
| "py_eq (JObj d) b = (case b of JObj e \<Rightarrow> length d = length e \<and> py_eq_dict d e | _ \<Rightarrow> False)"
| "py_eq (JStr s) b = (case b of JStr t \<Rightarrow> s = t | _ \<Rightarrow> False)"
| "py_eq JNull b = (case b of JNull \<Rightarrow> True | _ \<Rightarrow> False)"
| "py_eq (JNum r) b = (num_val b = Some r)"
| "py_eq (JBool x) b = (num_val b = Some (if x then 1 else 0))"
| "py_eq_list [] ys = (ys = [])"
| "py_eq_list (x # xs) ys =
     (case ys of [] \<Rightarrow> False | y # ys' \<Rightarrow> py_eq x y \<and> py_eq_list xs ys')"
| "py_eq_dict [] e = True"
| "py_eq_dict (kv # d) e =
     (case map_of e (fst kv) of
        None \<Rightarrow> False
      | Some w \<Rightarrow> py_eq (snd kv) w \<and> py_eq_dict d e)"

text \<open>
  \<^verbatim>\<open><\<close> is defined between two numbers, between two strings (character by character,
  a proper prefix first) and between two lists (by the first pair of items that are not
  equal, a proper prefix first); every other pair raises \<^verbatim>\<open>TypeError\<close>, here \<open>None\<close>.
\<close>

fun str_lt :: "string \<Rightarrow> string \<Rightarrow> bool" where
  "str_lt s [] = False"
| "str_lt [] (d # t) = True"
| "str_lt (c # s) (d # t) =
     (if (of_char c :: nat) = of_char d then str_lt s t else (of_char c :: nat) < of_char d)"

fun py_lt :: "json \<Rightarrow> json \<Rightarrow> bool option"
  and py_lt_list :: "json list \<Rightarrow> json list \<Rightarrow> bool option" where
  "py_lt (JArr xs) b = (case b of JArr ys \<Rightarrow> py_lt_list xs ys | _ \<Rightarrow> None)"
| "py_lt (JStr s) b = (case b of JStr t \<Rightarrow> Some (str_lt s t) | _ \<Rightarrow> None)"
| "py_lt (JNum r) b = (case num_val b of Some y \<Rightarrow> Some (r < y) | None \<Rightarrow> None)"
| "py_lt (JBool x) b =
     (case num_val b of Some y \<Rightarrow> Some ((if x then 1 else 0) < y) | None \<Rightarrow> None)"
| "py_lt JNull b = None"
| "py_lt (JObj d) b = None"
| "py_lt_list [] ys = Some (ys \<noteq> [])"
| "py_lt_list (x # xs) ys =
     (case ys of
        [] \<Rightarrow> Some False
      | y # ys' \<Rightarrow> if py_eq x y then py_lt_list xs ys' else py_lt x y)"

text \<open>
  The stable ascending arrangement of a list by its keys, by insertion from the right:
  an item goes before the first item whose key is not less than its own, so items with
  equal keys keep their order.
\<close>

definition key_le :: "json \<Rightarrow> json \<Rightarrow> bool" where
  "key_le a b = (py_lt b a \<noteq> Some True)"

primrec insort_time :: "json \<Rightarrow> json list \<Rightarrow> json list" where
  "insort_time x [] = [x]"
| "insort_time x (y # ys) =
     (if key_le (time_key x) (time_key y) then x # y # ys else y # insort_time x ys)"

definition stable_sort_time :: "json list \<Rightarrow> json list" where
  "stable_sort_time xs = foldr insort_time xs []"

text \<open>Every two keys of the list can be compared.\<close>

definition comparable_keys :: "json list \<Rightarrow> bool" where
  "comparable_keys xs =
     list_all (\<lambda>x. list_all (\<lambda>y. py_lt (time_key x) (time_key y) \<noteq> None) xs) xs"

text \<open>
  The sort key \<^verbatim>\<open>x.get('time', 0)\<close>, when it is a number.
\<close>

definition num_key :: "json \<Rightarrow> rat option" where
  "num_key x =
     (case x of
        JObj d \<Rightarrow>
          (case map_of d ''time'' of
             None \<Rightarrow> Some 0
           | Some (JNum r) \<Rightarrow> Some r
           | Some (JBool b) \<Rightarrow> Some (if b then 1 else 0)
           | Some _ \<Rightarrow> None)
      | _ \<Rightarrow> None)"

definition time_of :: "json \<Rightarrow> rat" where
  "time_of x = (case num_key x of Some r \<Rightarrow> r | None \<Rightarrow> 0)"

definition is_record :: "json \<Rightarrow> bool" where
  "is_record x = (case x of JObj d \<Rightarrow> True | _ \<Rightarrow> False)"

text \<open>
  \<^verbatim>\<open>activities.sort(key=lambda x: x.get('time', 0))\<close>. Only a list has \<^verbatim>\<open>sort\<close>, and
  only a dict has \<^verbatim>\<open>get\<close>. The keys are computed first; with at most one item nothing
  is compared. Python's sort is a stable comparison sort: it ends without an exception
  exactly when every two keys can be compared (items that end up next to each other
  must have been compared, and when \<^verbatim>\<open>a < b\<close> and \<^verbatim>\<open>b < c\<close> are defined so is
  \<^verbatim>\<open>a < c\<close>), and then its result is the one stable ascending arrangement. Otherwise
  it raises \<^verbatim>\<open>TypeError\<close>.
\<close>

definition sort_by_time :: "json \<Rightarrow> error + json list" where
  "sort_by_time v =
     (case v of
        JArr xs \<Rightarrow>
          if \<not> list_all is_record xs then Inl AttributeError
          else if length xs \<le> 1 then Inr xs
          else if comparable_keys xs then Inr (stable_sort_time xs)
          else Inl TypeError
      | _ \<Rightarrow> Inl AttributeError)"

text \<open>
  What is written on the screen: a row number and the text of the row. The text is kept
  as the values it is formatted from; the characters, the truncation to the width of the
  window and the colours are not modelled.
\<close>

datatype row_text =
    Header string
  | SystemInfo rat rat
  | HeartbeatText
  | ActivityText bool string json json
  | ErrorText error

type_synonym screen = "(nat \<times> row_text) list"

text \<open>\<^verbatim>\<open>screen.addstr(y, 0, ...)\<close> raises \<^verbatim>\<open>curses.error\<close> below the last row.\<close>

definition addstr :: "nat \<Rightarrow> screen \<Rightarrow> nat \<Rightarrow> row_text \<Rightarrow> error + screen" where
  "addstr max_y scr y t = (if y < max_y then Inr (scr @ [(y, t)]) else Inl CursesError)"

text \<open>
  The line of one activity. \<open>fmt\<close> stands for
  \<^verbatim>\<open>datetime.fromtimestamp(t).strftime("%H:%M:%S")\<close>, which depends on the time zone and
  raises (\<open>None\<close>) for a time out of the range of the platform; a time that is not a
  number is a \<^verbatim>\<open>TypeError\<close>.
\<close>

definition activity_line :: "(rat \<Rightarrow> string option) \<Rightarrow> json \<Rightarrow> error + row_text" where
  "activity_line fmt a =
     (case a of
        JObj d \<Rightarrow>
          (case num_key a of
             None \<Rightarrow> Inl TypeError
           | Some t \<Rightarrow>
               (case fmt t of
                  None \<Rightarrow> Inl ValueError
                | Some time_str \<Rightarrow>
                    (let component = dict_get d ''component'' (JStr ''unknown'');
                         description = dict_get d ''description'' (JStr [])
                     in Inr (ActivityText (component = JStr ''emergency'') time_str
                               component description))))
      | _ \<Rightarrow> Inl AttributeError)"

text \<open>
  The loop over the activities to show. It stops (\<^verbatim>\<open>break\<close>) when
  \<^verbatim>\<open>current_line >= max_y - 2\<close> and when \<^verbatim>\<open>addstr\<close> raises \<^verbatim>\<open>curses.error\<close>; any other
  exception leaves it, with the rows written so far.
\<close>

fun draw_rows ::
  "(rat \<Rightarrow> string option) \<Rightarrow> nat \<Rightarrow> screen \<Rightarrow> nat \<Rightarrow> json list \<Rightarrow> screen \<times> error option" where
  "draw_rows fmt max_y scr line [] = (scr, None)"
| "draw_rows fmt max_y scr line (a # as) =
     (if max_y \<le> line + 2 then (scr, None)
      else (case activity_line fmt a of
              Inl e \<Rightarrow> (scr, Some e)
            | Inr t \<Rightarrow>
                (case addstr max_y scr line t of
                   Inl e \<Rightarrow> (scr, None)
                 | Inr scr' \<Rightarrow> draw_rows fmt max_y scr' (line + 1) as)))"

text \<open>The outer \<^verbatim>\<open>except\<close> of \<^verbatim>\<open>update_display\<close>: the error is written on row 0, over
  what is on the screen; if that raises too, the exception goes to the caller.\<close>

definition display_error :: "nat \<Rightarrow> stream \<Rightarrow> screen \<Rightarrow> error \<Rightarrow> error + stream \<times> screen" where
  "display_error max_y st scr e =
     (case addstr max_y scr 0 (ErrorText e) of
        Inl e' \<Rightarrow> Inl e'
      | Inr scr' \<Rightarrow> Inr (st, scr'))"

text \<open>
  \<^verbatim>\<open>update_display\<close>. Its inputs besides the object: the formatter of times, the height
  of the window, the files, the two readings of \<^verbatim>\<open>psutil\<close> and the reading \<open>now\<close> of
  \<^verbatim>\<open>time.time()\<close> (the heartbeat branch reads the clock twice; both readings are \<open>now\<close>).
  The screen starts cleared.
\<close>

definition update_display ::
  "(rat \<Rightarrow> string option) \<Rightarrow> nat \<Rightarrow> fs \<Rightarrow> rat \<Rightarrow> rat \<Rightarrow> rat \<Rightarrow> stream \<Rightarrow> error + stream \<times> screen" where
  "update_display fmt max_y fs cpu_now mem_now now st =
     (case gather (stream_type st) fs of
        Inl e \<Rightarrow> display_error max_y st [] e
      | Inr loaded \<Rightarrow>
     (case sort_by_time loaded of
        Inl e \<Rightarrow> display_error max_y st [] e
      | Inr acts \<Rightarrow>
     (case addstr max_y [] 0 (Header (stream_value (stream_type st))) of
        Inl e \<Rightarrow> display_error max_y st [] e
      | Inr scr1 \<Rightarrow>
     (case addstr max_y scr1 2 (SystemInfo cpu_now mem_now) of
        Inl e \<Rightarrow> display_error max_y st scr1 e
      | Inr scr2 \<Rightarrow>
          if acts = [] then
            (if now - last_update st > 30 then
               (case addstr max_y scr2 4 HeartbeatText of
                  Inl e \<Rightarrow> display_error max_y st scr2 e
                | Inr scr3 \<Rightarrow> Inr (st\<lparr>last_update := now\<rparr>, scr3))
             else Inr (st, scr2))
          else
            (case draw_rows fmt max_y scr2 4 (rev (last_items 50 acts)) of
               (scr3, Some e) \<Rightarrow> display_error max_y st scr3 e
             | (scr3, None) \<Rightarrow> Inr (st, scr3))))))"

section \<open>Properties of the merge and of the stamping\<close>

text \<open>\<^verbatim>\<open>activity.get('component')\<close>\<close>

definition component_of :: "json \<Rightarrow> json option" where
  "component_of a = (case a of JObj d \<Rightarrow> map_of d ''component'' | _ \<Rightarrow> None)"



lemma stamp_all_Inr:
  "stamp_all c xs = Inr ys \<Longrightarrow>
   length ys = length xs \<and> list_all is_record ys
   \<and> list_all (\<lambda>y. component_of y = Some (JStr c)) ys"
proof (induction xs arbitrary: ys)
  case Nil
  then show ?case by simp
next
  case (Cons a as)
  from Cons.prems obtain a' as' where
    a: "stamp_record c a = Inr a'" and as: "stamp_all c as = Inr as'" and ys: "ys = a' # as'"
    by (auto split: sum.splits)
  from a have "is_record a' \<and> component_of a' = Some (JStr c)"
    by (auto simp: stamp_record_def is_record_def component_of_def update_conv'
        split: json.splits)
  with Cons.IH [OF as] ys show ?case by simp
qed


lemma gather_all_records:
  "gather_all fs cs acc = Inr out \<Longrightarrow> list_all is_record acc \<Longrightarrow> list_all is_record out"
proof (induction cs arbitrary: acc)
  case Nil
  then show ?case by simp
next
  case (Cons c cs)
  show ?case
  proof (cases "path_exists fs (activity_file c)")
    case False
    with Cons show ?thesis by simp
  next
    case True
    show ?thesis
    proof (cases "json_load fs (activity_file c)")
      case (Inl e)
      with True Cons show ?thesis by (cases e) simp_all
    next
      case (Inr j)
      with True Cons.prems obtain xs ys where
        "stamp_all c xs = Inr ys" and rest: "gather_all fs cs (acc @ ys) = Inr out"
        by (auto split: sum.splits)
      then have "list_all is_record (acc @ ys)"
        using Cons.prems(2) stamp_all_Inr by fastforce
      with rest show ?thesis by (rule Cons.IH)
    qed
  qed
qed

lemma gather_one_records:
  assumes "gather_one fs c = Inr (JArr acts)"
  shows "list_all is_record acts"
proof (cases "path_exists fs (activity_file c)")
  case False
  with assms show ?thesis by (simp add: gather_one_def)
next
  case True
  show ?thesis
  proof (cases "json_load fs (activity_file c)")
    case (Inl e)
    with True assms show ?thesis by (cases e) (simp_all add: gather_one_def)
  next
    case (Inr j)
    with True assms obtain xs ys where
      s: "stamp_all c xs = Inr ys" and r: "(case j of JArr _ \<Rightarrow> JArr ys | _ \<Rightarrow> j) = JArr acts"
      by (auto simp: gather_one_def split: sum.splits)
    from r have "acts = ys" by (cases j) simp_all
    with s show ?thesis using stamp_all_Inr by blast
  qed
qed

lemma gather_records:
  "gather t fs = Inr (JArr acts) \<Longrightarrow> list_all is_record acts"
  by (auto simp: gather_def gather_one_records split: if_splits sum.splits
      dest: gather_all_records)

text \<open>On records whose \<^verbatim>\<open>time\<close> is a number or missing, the sort is the stable sort
  by that number.\<close>

lemma num_val_time_key: "is_record x \<Longrightarrow> num_val (time_key x) = num_key x"
  by (auto simp: is_record_def time_key_def dict_get_def num_key_def num_val_def
      split: json.splits option.splits)

lemma py_lt_numbers:
  "num_val a = Some x \<Longrightarrow> num_val b = Some y \<Longrightarrow> py_lt a b = Some (x < y)"
  by (cases a) (auto simp: num_val_def)

lemma key_le_numbers:
  assumes "is_record x" "num_key x \<noteq> None" "is_record y" "num_key y \<noteq> None"
  shows "key_le (time_key x) (time_key y) = (time_of x \<le> time_of y)"
    and "py_lt (time_key x) (time_key y) \<noteq> None"
proof -
  from assms obtain a b where a: "num_key x = Some a" and b: "num_key y = Some b"
    by auto
  with assms(1,3) have "num_val (time_key x) = Some a" "num_val (time_key y) = Some b"
    by (simp_all add: num_val_time_key)
  then have "py_lt (time_key y) (time_key x) = Some (b < a)"
    "py_lt (time_key x) (time_key y) = Some (a < b)"
    by (simp_all add: py_lt_numbers)
  with a b show "key_le (time_key x) (time_key y) = (time_of x \<le> time_of y)"
    and "py_lt (time_key x) (time_key y) \<noteq> None"
    by (auto simp: key_le_def time_of_def)
qed

lemma insort_time_numbers:
  "list_all (\<lambda>y. is_record y \<and> num_key y \<noteq> None) (x # ys) \<Longrightarrow>
   insort_time x ys = insort_key time_of x ys"
  by (induction ys) (simp_all add: key_le_numbers)

lemma stable_sort_time_numbers:
  "list_all (\<lambda>y. is_record y \<and> num_key y \<noteq> None) xs \<Longrightarrow>
   stable_sort_time xs = sort_key time_of xs"
proof (induction xs)
  case Nil
  then show ?case by (simp add: stable_sort_time_def)
next
  case (Cons x xs)
  then have "stable_sort_time xs = sort_key time_of xs"
    by simp
  moreover from Cons.prems
  have "list_all (\<lambda>y. is_record y \<and> num_key y \<noteq> None) (x # sort_key time_of xs)"
    by (simp add: list_all_iff)
  ultimately show ?case
    by (simp add: stable_sort_time_def insort_time_numbers sort_key_def)
qed

lemma comparable_keys_numbers:
  assumes "list_all (\<lambda>y. is_record y \<and> num_key y \<noteq> None) xs"
  shows "comparable_keys xs"
proof -
  have "py_lt (time_key x) (time_key y) \<noteq> None" if "x \<in> set xs" "y \<in> set xs" for x y
    using assms that key_le_numbers(2) [of x y] by (simp add: list_all_iff)
  then show ?thesis
    by (simp add: comparable_keys_def list_all_iff)
qed

lemma sort_by_time_numbers:
  assumes "list_all is_record xs" and "list_all (\<lambda>x. num_key x \<noteq> None) xs"
  shows "sort_by_time (JArr xs) = Inr (sort_key time_of xs)"
proof -
  from assms have all: "list_all (\<lambda>y. is_record y \<and> num_key y \<noteq> None) xs"
    by (simp add: list_all_iff)
  show ?thesis
  proof (cases "length xs \<le> 1")
    case True
    then have "sort_key time_of xs = xs"
      by (cases xs) auto
    with True assms(1) show ?thesis
      by (simp add: sort_by_time_def)
  next
    case False
    with assms(1) all show ?thesis
      by (simp add: sort_by_time_def comparable_keys_numbers stable_sort_time_numbers)
  qed
qed

lemma sort_by_time_empty: "sort_by_time (JArr []) = Inr []"
  by (simp add: sort_by_time_def)

text \<open>The stamped copy of a record; and the merge as a concatenation: when the files
  of the components hold arrays of records, \<^verbatim>\<open>activities\<close> is the concatenation of their
  stamped records, in the order of the components.\<close>

definition stamped :: "string \<Rightarrow> json \<Rightarrow> json" where
  "stamped c a =
     (case a of JObj d \<Rightarrow> JObj (AList.update ''component'' (JStr c) d) | _ \<Rightarrow> a)"

lemma stamp_all_map:
  "list_all is_record xs \<Longrightarrow> stamp_all c xs = Inr (map (stamped c) xs)"
  by (induction xs)
    (auto simp: stamp_record_def stamped_def is_record_def split: json.splits)

lemma gather_all_concat:
  "list_all (\<lambda>c. fs (activity_file c) = Some (File (Json (JArr (recs c))))
      \<and> list_all is_record (recs c)) cs \<Longrightarrow>
   gather_all fs cs acc = Inr (acc @ concat (map (\<lambda>c. map (stamped c) (recs c)) cs))"
  by (induction cs arbitrary: acc)
    (simp_all add: path_exists_def json_load_def iterate_def stamp_all_map)

text \<open>
  Claim C2. Whatever the files hold, when \<^verbatim>\<open>update_display\<close> has gathered a list of
  records whose \<^verbatim>\<open>time\<close> values are numbers (or missing, which counts as 0), the sort
  returns a list with the same records that is non-decreasing in \<^verbatim>\<open>time\<close>, and the
  records of any one \<^verbatim>\<open>time\<close> keep the order they had in the gathered list.
\<close>

theorem merge_sorted_stable:
  assumes "gather t fs = Inr (JArr acts)"
    and "list_all (\<lambda>x. num_key x \<noteq> None) acts"
  shows "\<exists>out. sort_by_time (JArr acts) = Inr out
           \<and> sorted (map time_of out)
           \<and> mset out = mset acts
           \<and> (\<forall>k. filter (\<lambda>x. time_of x = k) out = filter (\<lambda>x. time_of x = k) acts)
           \<and> (\<forall>d. map_of d ''time'' = None \<longrightarrow> time_of (JObj d) = 0)"
proof -
  have recs: "list_all is_record acts"
    using assms(1) by (rule gather_records)
  have zero: "map_of d ''time'' = None \<longrightarrow> time_of (JObj d) = 0" for d
    by (simp add: time_of_def num_key_def)
  from recs assms(2) have "sort_by_time (JArr acts) = Inr (sort_key time_of acts)"
    by (rule sort_by_time_numbers)
  with zero show ?thesis
    by (simp add: sort_key_stable)
qed

theorem merge_sorted_stable_witness:
  "gather All (two_files
       ''ml'' (Json (JArr [JObj [(''time'', JNum 2000), (''description'', JStr ''trial 2'')],
                           JObj [(''time'', JNum 1000), (''description'', JStr ''trial 1'')]]))
       ''browser'' (Json (JArr [JObj [(''description'', JStr ''page''), (''time'', JNum 1000)]])))
     = Inr (JArr
        [JObj [(''time'', JNum 2000), (''description'', JStr ''trial 2''), (''component'', JStr ''ml'')],
         JObj [(''time'', JNum 1000), (''description'', JStr ''trial 1''), (''component'', JStr ''ml'')],
         JObj [(''description'', JStr ''page''), (''time'', JNum 1000),
               (''component'', JStr ''browser'')]])
   \<and> (\<exists>out. sort_by_time (JArr
        [JObj [(''time'', JNum 2000), (''description'', JStr ''trial 2''), (''component'', JStr ''ml'')],
         JObj [(''time'', JNum 1000), (''description'', JStr ''trial 1''), (''component'', JStr ''ml'')],
         JObj [(''description'', JStr ''page''), (''time'', JNum 1000),
               (''component'', JStr ''browser'')]]) = Inr out
      \<and> out =
        [JObj [(''time'', JNum 1000), (''description'', JStr ''trial 1''), (''component'', JStr ''ml'')],
         JObj [(''description'', JStr ''page''), (''time'', JNum 1000),
               (''component'', JStr ''browser'')],
         JObj [(''time'', JNum 2000), (''description'', JStr ''trial 2''), (''component'', JStr ''ml'')]]
      \<and> sorted (map time_of out))"
proof -
  let ?fs = "two_files
       ''ml'' (Json (JArr [JObj [(''time'', JNum 2000), (''description'', JStr ''trial 2'')],
                           JObj [(''time'', JNum 1000), (''description'', JStr ''trial 1'')]]))
       ''browser'' (Json (JArr [JObj [(''description'', JStr ''page''), (''time'', JNum 1000)]]))"
  let ?acts = "[JObj [(''time'', JNum 2000), (''description'', JStr ''trial 2''), (''component'', JStr ''ml'')],
         JObj [(''time'', JNum 1000), (''description'', JStr ''trial 1''), (''component'', JStr ''ml'')],
         JObj [(''description'', JStr ''page''), (''time'', JNum 1000),
               (''component'', JStr ''browser'')]]"
  have g: "gather All ?fs = Inr (JArr ?acts)"
    by (simp add: gather_def components_def path_exists_def two_files_def one_file_def
        activity_file_def echo_dir_def json_load_def iterate_def stamp_record_def)
  have n: "list_all (\<lambda>x. num_key x \<noteq> None) ?acts"
    by (simp add: num_key_def)
  have s: "sort_by_time (JArr ?acts) = Inr
        [JObj [(''time'', JNum 1000), (''description'', JStr ''trial 1''), (''component'', JStr ''ml'')],
         JObj [(''description'', JStr ''page''), (''time'', JNum 1000),
               (''component'', JStr ''browser'')],
         JObj [(''time'', JNum 2000), (''description'', JStr ''trial 2''), (''component'', JStr ''ml'')]]"
    by (simp add: sort_by_time_numbers is_record_def num_key_def time_of_def)
  from merge_sorted_stable [OF g n] obtain out where
    "sort_by_time (JArr ?acts) = Inr out" and "sorted (map time_of out)"
    by blast
  with g s show ?thesis by simp
qed











section \<open>The Change Detector and the Scheduler\<close>

text \<open>
  \<^verbatim>\<open>_screen_state_changed\<close>. The new dict \<^verbatim>\<open>current_state\<close> holds the two objects
  themselves; \<^verbatim>\<open>!=\<close> compares what they hold now with what the objects of the last
  state hold now. The first comparison is with the empty dict, which differs from any
  dict with two keys.
\<close>

definition screen_state_changed :: "stream \<Rightarrow> bool \<times> stream" where
  "screen_state_changed st =
     (let current_state = (activities st, system_stats st);
          changed =
            (case last_screen_state st of
               None \<Rightarrow> True
             | Some (a, s) \<Rightarrow>
                 \<not> (act_store st (fst current_state) = act_store st a
                    \<and> stat_store st (snd current_state) = stat_store st s))
      in (changed, st\<lparr>last_screen_state := Some current_state\<rparr>))"

text \<open>
  \<^verbatim>\<open>update_system_stats\<close>. \<open>reading\<close> is what \<^verbatim>\<open>psutil\<close> and the clock return, \<open>None\<close>
  when one of them raises. A reading becomes a new dict, bound to \<^verbatim>\<open>self.system_stats\<close>;
  a failure is appended to the \<^verbatim>\<open>emergency\<close> list in place, with the time \<open>now\<close>, and
  that \<^verbatim>\<open>append\<close> raises when the entry is not a list.
\<close>

definition update_system_stats :: "sample option \<Rightarrow> rat \<Rightarrow> stream \<Rightarrow> error + stream" where
  "update_system_stats reading now st =
     (case reading of
        Some s \<Rightarrow>
          Inr (st\<lparr> system_stats := next_addr st,
                   stat_store := (stat_store st)(next_addr st := Some s),
                   next_addr := Suc (next_addr st) \<rparr>)
      | None \<Rightarrow>
          (case act_store st (activities st) ''emergency'' of
             None \<Rightarrow> Inl KeyError
           | Some (JArr xs) \<Rightarrow>
               Inr (st\<lparr> act_store := (act_store st)
                         (activities st := (act_store st (activities st))
                            (''emergency'' \<mapsto>
                               JArr (xs @ [JObj [(''time'', JNum now),
                                                 (''error'', JStr ''Error updating stats'')]]))) \<rparr>)
           | Some _ \<Rightarrow> Inl AttributeError))"

text \<open>What \<^verbatim>\<open>getch\<close> returns within its timeout.\<close>

datatype key = KeyQ | KeyC | KeyOther | NoKey

text \<open>
  What one turn of the loop of \<^verbatim>\<open>run\<close> reads from outside: the clock at its start, the
  files, the readings of \<^verbatim>\<open>update_system_stats\<close>, the height of the window, the readings
  of \<^verbatim>\<open>update_display\<close> and the key. The files are read as they are at one moment of the
  turn.
\<close>

record env =
  current_time :: rat
  files :: fs
  stats_reading :: "sample option"
  stats_error_time :: rat
  max_y :: nat
  cpu_now :: rat
  mem_now :: rat
  display_time :: rat
  pressed :: key

definition update_interval :: rat where
  "update_interval = 1 / 2"

text \<open>The \<^verbatim>\<open>except Exception\<close> of the loop: the error is written on row 0, unless that
  raises \<^verbatim>\<open>curses.error\<close>.\<close>

definition loop_error :: "env \<Rightarrow> stream \<Rightarrow> screen \<Rightarrow> error \<Rightarrow> stream \<times> screen" where
  "loop_error e st scr err =
     (case addstr (max_y e) scr 0 (ErrorText err) of
        Inl _ \<Rightarrow> (st, scr)
      | Inr scr' \<Rightarrow> (st, scr'))"

definition check_quit :: "env \<Rightarrow> stream \<times> screen \<Rightarrow> stream \<times> screen" where
  "check_quit e p =
     (case pressed e of
        KeyQ \<Rightarrow> (fst p\<lparr>running := False\<rparr>, snd p)
      | KeyC \<Rightarrow> (fst p, [])
      | _ \<Rightarrow> p)"

text \<open>One turn of \<^verbatim>\<open>while self.running\<close>.\<close>

definition run_iteration ::
  "(rat \<Rightarrow> string option) \<Rightarrow> env \<Rightarrow> stream \<times> screen \<Rightarrow> stream \<times> screen" where
  "run_iteration fmt e p =
     (let st = fst p; scr = snd p in
      if current_time e - last_update st \<ge> update_interval then
        (let st1 = update_activities (files e) st in
         case update_system_stats (stats_reading e) (stats_error_time e) st1 of
           Inl err \<Rightarrow> loop_error e st1 scr err
         | Inr st2 \<Rightarrow>
             (let st3 = st2\<lparr>last_update := current_time e\<rparr>;
                  c = screen_state_changed st3
              in if fst c then
                   (case update_display fmt (max_y e) (files e) (cpu_now e) (mem_now e)
                           (display_time e) (snd c) of
                      Inl err \<Rightarrow> loop_error e (snd c) [] err
                    | Inr p' \<Rightarrow> check_quit e p')
                 else check_quit e (snd c, scr)))
      else check_quit e p)"

text \<open>The loop, over the successive states of the outside world.\<close>

fun run_loop ::
  "(rat \<Rightarrow> string option) \<Rightarrow> env list \<Rightarrow> stream \<times> screen \<Rightarrow> stream \<times> screen" where
  "run_loop fmt [] p = p"
| "run_loop fmt (e # es) p =
     (if running (fst p) then run_loop fmt es (run_iteration fmt e p) else p)"

section \<open>Properties of the Change Detector and of the heartbeat\<close>

lemma update_activities_fields [simp]:
  "stream_type (update_activities fs st) = stream_type st"
  "last_update (update_activities fs st) = last_update st"
  "running (update_activities fs st) = running st"
  "activities (update_activities fs st) = activities st"
  "system_stats (update_activities fs st) = system_stats st"
  "last_screen_state (update_activities fs st) = last_screen_state st"
  "stat_store (update_activities fs st) = stat_store st"
  "next_addr (update_activities fs st) = next_addr st"
  by (simp_all add: update_activities_def)

lemma act_store_update_activities:
  "a = activities st \<Longrightarrow> c \<in> set components \<Longrightarrow>
   act_store (update_activities fs st) a c = update_entry fs (act_store st a) c c"
  using cached_update_activities [of c fs st] by (simp add: cached_def)

lemma update_entry_absent: "fs (activity_file c) = None \<Longrightarrow> update_entry fs a c = a"
  by (simp add: update_entry_def path_exists_def)

lemma one_file_other: "c' \<noteq> c \<Longrightarrow> one_file c x (activity_file c') = None"
  by (simp add: one_file_def activity_file_def echo_dir_def)

lemma empty_activities_at: "c \<in> set components \<Longrightarrow> empty_activities c = Some (JArr [])"
  by (auto simp: empty_activities_def components_def)

lemma screen_state_changed_twice:
  "fst (screen_state_changed (snd (screen_state_changed st))) = False"
  by (simp add: screen_state_changed_def Let_def)

text \<open>The dict of activities that the last state holds is the dict that
  \<^verbatim>\<open>update_activities\<close> writes into, so no change of a record is ever seen: whatever the
  files hold, a call that follows another call with only \<^verbatim>\<open>update_activities\<close> in
  between answers \<open>False\<close>.\<close>

lemma screen_state_changed_aliased:
  "fst (screen_state_changed (update_activities fs (snd (screen_state_changed st)))) = False"
  by (simp add: screen_state_changed_def update_activities_def Let_def)

text \<open>
  Claim C4: the code at the failing input. After a first call of
  \<^verbatim>\<open>_screen_state_changed\<close> on the empty \<^verbatim>\<open>cognitive\<close> log, the log gets a record and
  \<^verbatim>\<open>update_activities\<close> caches it; the second call still returns \<open>False\<close>, although the
  cached records differ. In the loop of \<^verbatim>\<open>run\<close> this happens when \<^verbatim>\<open>psutil\<close> raises, so
  that \<^verbatim>\<open>system_stats\<close> stays the same object: the turn does not redraw, and the screen
  keeps the two rows of the turn before.
\<close>

theorem screen_state_changed_misses_record_change:
  "fst (screen_state_changed
      (update_activities (one_file ''cognitive'' (Json (JArr [JObj [(''time'', JNum 1)]])))
         (snd (screen_state_changed
            (update_activities (one_file ''cognitive'' (Json (JArr []))) (init_stream All))))))
     = False
   \<and> cached (snd (screen_state_changed
            (update_activities (one_file ''cognitive'' (Json (JArr []))) (init_stream All))))
        ''cognitive''
     = Some (JArr [])
   \<and> cached (update_activities (one_file ''cognitive'' (Json (JArr [JObj [(''time'', JNum 1)]])))
         (snd (screen_state_changed
            (update_activities (one_file ''cognitive'' (Json (JArr []))) (init_stream All)))))
        ''cognitive''
     = Some (JArr [JObj [(''time'', JNum 1)]])
   \<and> snd (run_loop (\<lambda>t. Some ''00:00:00'')
        [\<lparr> current_time = 1000, files = one_file ''cognitive'' (Json (JArr [])),
           stats_reading = Some \<lparr> cpu = 5, memory = 40, disk = 70, stamp = ''12:00:00'' \<rparr>,
           stats_error_time = 1000, max_y = 24, cpu_now = 5, mem_now = 40,
           display_time = 1000, pressed = NoKey \<rparr>,
         \<lparr> current_time = 1001,
           files = one_file ''cognitive'' (Json (JArr [JObj [(''time'', JNum 1)]])),
           stats_reading = None,
           stats_error_time = 1001, max_y = 24, cpu_now = 6, mem_now = 41,
           display_time = 1001, pressed = NoKey \<rparr>]
        (init_stream All, []))
     = [(0, Header ''all''), (2, SystemInfo 5 40)]"
proof -
  let ?st1 = "snd (screen_state_changed
      (update_activities (one_file ''cognitive'' (Json (JArr []))) (init_stream All)))"
  have c: "''cognitive'' \<in> set components"
    by (simp add: components_def)
  have a: "fst (screen_state_changed
      (update_activities (one_file ''cognitive'' (Json (JArr [JObj [(''time'', JNum 1)]]))) ?st1))
      = False"
    by (rule screen_state_changed_aliased)
  have keep: "cached (snd (screen_state_changed s)) k = cached s k" for s k
    by (simp add: cached_def screen_state_changed_def Let_def)
  have b: "cached ?st1 ''cognitive'' = Some (JArr [])"
    using c by (simp add: keep cached_update_activities update_entry_array last_items_def)
  have d: "cached (update_activities
      (one_file ''cognitive'' (Json (JArr [JObj [(''time'', JNum 1)]]))) ?st1) ''cognitive''
      = Some (JArr [JObj [(''time'', JNum 1)]])"
    using c by (simp add: cached_update_activities update_entry_array last_items_def max_items_def)
  have g: "gather All (one_file ''cognitive'' (Json (JArr []))) = Inr (JArr [])"
    by (simp add: gather_def components_def path_exists_def one_file_def activity_file_def
        echo_dir_def json_load_def iterate_def)
  have e: "''emergency'' \<in> set components"
    by (simp add: components_def)
  have l: "snd (run_loop (\<lambda>t. Some ''00:00:00'')
        [\<lparr> current_time = 1000, files = one_file ''cognitive'' (Json (JArr [])),
           stats_reading = Some \<lparr> cpu = 5, memory = 40, disk = 70, stamp = ''12:00:00'' \<rparr>,
           stats_error_time = 1000, max_y = 24, cpu_now = 5, mem_now = 40,
           display_time = 1000, pressed = NoKey \<rparr>,
         \<lparr> current_time = 1001,
           files = one_file ''cognitive'' (Json (JArr [JObj [(''time'', JNum 1)]])),
           stats_reading = None,
           stats_error_time = 1001, max_y = 24, cpu_now = 6, mem_now = 41,
           display_time = 1001, pressed = NoKey \<rparr>]
        (init_stream All, []))
     = [(0, Header ''all''), (2, SystemInfo 5 40)]"
    by (simp add: run_iteration_def update_interval_def Let_def update_system_stats_def
        screen_state_changed_def update_display_def g sort_by_time_empty addstr_def
        check_quit_def init_stream_def act_store_update_activities update_entry_absent
        one_file_other empty_activities_at e)
  from a b d l show ?thesis by simp
qed

text \<open>The heartbeat rows and the activity rows of a screen.\<close>

definition heartbeat_rows :: "screen \<Rightarrow> screen" where
  "heartbeat_rows scr = filter (\<lambda>r. snd r = HeartbeatText) scr"

definition is_activity_row :: "nat \<times> row_text \<Rightarrow> bool" where
  "is_activity_row r = (case snd r of ActivityText _ _ _ _ \<Rightarrow> True | _ \<Rightarrow> False)"

definition activity_rows :: "screen \<Rightarrow> screen" where
  "activity_rows scr = filter is_activity_row scr"

lemma addstr_heartbeat_rows:
  "addstr my scr y t = Inr scr' \<Longrightarrow> t \<noteq> HeartbeatText \<Longrightarrow>
   heartbeat_rows scr' = heartbeat_rows scr"
  by (auto simp: addstr_def heartbeat_rows_def split: if_splits)

lemma activity_line_not_heartbeat: "activity_line fmt a = Inr t \<Longrightarrow> t \<noteq> HeartbeatText"
  by (auto simp: activity_line_def Let_def split: json.splits option.splits)

lemma draw_rows_heartbeat_rows:
  "heartbeat_rows (fst (draw_rows fmt my scr line as)) = heartbeat_rows scr"
proof (induction as arbitrary: scr line)
  case Nil
  then show ?case by simp
next
  case (Cons a as)
  show ?case
  proof (cases "my \<le> line + 2")
    case True
    then show ?thesis by simp
  next
    case False
    show ?thesis
    proof (cases "activity_line fmt a")
      case (Inl e)
      with False show ?thesis by simp
    next
      case (Inr t)
      show ?thesis
      proof (cases "addstr my scr line t")
        case (Inl e)
        with False Inr show ?thesis by simp
      next
        case scr': (Inr scr')
        have "heartbeat_rows scr' = heartbeat_rows scr"
          using scr' activity_line_not_heartbeat [OF Inr] by (rule addstr_heartbeat_rows)
        with False Inr scr' Cons.IH [of scr' "line + 1"] show ?thesis by simp
      qed
    qed
  qed
qed

lemma display_error_heartbeat_rows:
  "display_error my st scr e = Inr (st', scr') \<Longrightarrow>
   heartbeat_rows scr' = heartbeat_rows scr \<and> st' = st"
  by (auto simp: display_error_def split: sum.splits dest: addstr_heartbeat_rows)

text \<open>\<^verbatim>\<open>update_display\<close> draws no heartbeat row unless its reading of the clock is more
  than 30 seconds after \<^verbatim>\<open>last_update\<close>, and it leaves \<^verbatim>\<open>last_update\<close> as it is then.\<close>

lemma update_display_no_heartbeat:
  assumes "now - last_update st \<le> 30"
    and "update_display fmt my fs c m now st = Inr (st', scr)"
  shows "heartbeat_rows scr = [] \<and> st' = st"
proof -
  have nil: "heartbeat_rows [] = []"
    by (simp add: heartbeat_rows_def)
  show ?thesis
  proof (cases "gather (stream_type st) fs")
    case (Inl e)
    with assms(2) nil show ?thesis
      by (auto simp: update_display_def dest: display_error_heartbeat_rows)
  next
    case loaded: (Inr loaded)
    show ?thesis
    proof (cases "sort_by_time loaded")
      case (Inl e)
      with loaded assms(2) nil show ?thesis
        by (auto simp: update_display_def dest: display_error_heartbeat_rows)
    next
      case acts: (Inr acts)
      show ?thesis
      proof (cases "addstr my [] 0 (Header (stream_value (stream_type st)))")
        case (Inl e)
        with loaded acts assms(2) nil show ?thesis
          by (auto simp: update_display_def dest: display_error_heartbeat_rows)
      next
        case scr1: (Inr scr1)
        then have h1: "heartbeat_rows scr1 = []"
          using nil by (auto dest: addstr_heartbeat_rows)
        show ?thesis
        proof (cases "addstr my scr1 2 (SystemInfo c m)")
          case (Inl e)
          with loaded acts scr1 assms(2) h1 show ?thesis
            by (auto simp: update_display_def dest: display_error_heartbeat_rows)
        next
          case scr2: (Inr scr2)
          then have h2: "heartbeat_rows scr2 = []"
            using h1 by (auto dest: addstr_heartbeat_rows)
          show ?thesis
          proof (cases "acts = []")
            case True
            with loaded acts scr1 scr2 assms h2 show ?thesis
              by (simp add: update_display_def)
          next
            case False
            obtain scr3 r where d: "draw_rows fmt my scr2 4 (rev (last_items 50 acts)) = (scr3, r)"
              by (cases "draw_rows fmt my scr2 4 (rev (last_items 50 acts))")
            then have h3: "heartbeat_rows scr3 = []"
              using draw_rows_heartbeat_rows [of fmt my scr2 4 "rev (last_items 50 acts)"] h2
              by simp
            from False loaded acts scr1 scr2 assms(2) d h3 show ?thesis
              by (cases r) (auto simp: update_display_def dest: display_error_heartbeat_rows)
          qed
        qed
      qed
    qed
  qed
qed

lemma loop_error_heartbeat_rows:
  "heartbeat_rows (snd (loop_error e st scr err)) = heartbeat_rows scr"
  by (auto simp: loop_error_def split: sum.splits dest: addstr_heartbeat_rows)

lemma check_quit_heartbeat_rows:
  "heartbeat_rows (snd p) = [] \<Longrightarrow> heartbeat_rows (snd (check_quit e p)) = []"
  by (cases "pressed e") (simp_all add: check_quit_def heartbeat_rows_def)

text \<open>
  In the loop of \<^verbatim>\<open>run\<close>, \<^verbatim>\<open>last_update\<close> is set to the time of the turn just before
  \<^verbatim>\<open>update_display\<close> is called. So a turn whose display starts within 30 seconds of
  its own start never draws the heartbeat, however long ago the last one was.
\<close>

lemma run_iteration_no_heartbeat:
  assumes "display_time e - current_time e \<le> 30"
    and "heartbeat_rows (snd p) = []"
  shows "heartbeat_rows (snd (run_iteration fmt e p)) = []"
proof (cases "current_time e - last_update (fst p) \<ge> update_interval")
  case False
  with assms(2) show ?thesis
    by (simp add: run_iteration_def Let_def check_quit_heartbeat_rows)
next
  case due: True
  let ?st1 = "update_activities (files e) (fst p)"
  show ?thesis
  proof (cases "update_system_stats (stats_reading e) (stats_error_time e) ?st1")
    case (Inl err)
    with due assms(2) show ?thesis
      by (simp add: run_iteration_def Let_def loop_error_heartbeat_rows)
  next
    case (Inr st2)
    let ?c = "screen_state_changed (st2\<lparr>last_update := current_time e\<rparr>)"
    have lu: "last_update (snd ?c) = current_time e"
      by (simp add: screen_state_changed_def Let_def)
    show ?thesis
    proof (cases "fst ?c")
      case False
      with due Inr assms(2) show ?thesis
        by (simp add: run_iteration_def Let_def check_quit_heartbeat_rows)
    next
      case True
      show ?thesis
      proof (cases "update_display fmt (max_y e) (files e) (cpu_now e) (mem_now e)
          (display_time e) (snd ?c)")
        case (Inl err)
        have "heartbeat_rows [] = []"
          by (simp add: heartbeat_rows_def)
        with due Inr True Inl show ?thesis
          by (simp add: run_iteration_def Let_def loop_error_heartbeat_rows)
      next
        case p': (Inr p')
        have "heartbeat_rows (snd p') = []"
          using update_display_no_heartbeat [of "display_time e" "snd ?c" fmt "max_y e"
              "files e" "cpu_now e" "mem_now e" "fst p'" "snd p'"] assms(1) lu p'
          by simp
        with due Inr True p' show ?thesis
          by (simp add: run_iteration_def Let_def check_quit_heartbeat_rows)
      qed
    qed
  qed
qed

lemma run_loop_no_heartbeat:
  "list_all (\<lambda>e. display_time e - current_time e \<le> 30) es \<Longrightarrow>
   heartbeat_rows (snd p) = [] \<Longrightarrow>
   heartbeat_rows (snd (run_loop fmt es p)) = []"
  by (induction es arbitrary: p) (simp_all add: run_iteration_no_heartbeat)

text \<open>Called on its own, \<^verbatim>\<open>update_display\<close> does draw the heartbeat: with nothing to show
  and a clock more than 30 seconds after \<^verbatim>\<open>last_update\<close>, the screen has the two fixed
  rows and the heartbeat row, and no activity row.\<close>

lemma update_display_heartbeat:
  assumes "gather (stream_type st) fs = Inr (JArr [])"
    and "now - last_update st > 30"
    and "4 < my"
  shows "update_display fmt my fs c m now st
    = Inr (st\<lparr>last_update := now\<rparr>,
           [(0, Header (stream_value (stream_type st))), (2, SystemInfo c m),
            (4, HeartbeatText)])"
  using assms by (simp add: update_display_def sort_by_time_empty addstr_def)

text \<open>
  Claim C9: the code at the failing input. The dashboard runs in the \<^verbatim>\<open>cognitive\<close> view
  on an empty log; two turns of the loop, 40 seconds apart, each draw the screen 0.2
  seconds after they start. No heartbeat has ever been drawn, more than 30 seconds have
  passed, and the screen after the second turn has the two fixed rows only.
\<close>

theorem run_loop_heartbeat_missing:
  "snd (run_loop (\<lambda>t. Some ''00:00:00'')
        [\<lparr> current_time = 1000, files = one_file ''cognitive'' (Json (JArr [])),
           stats_reading = Some \<lparr> cpu = 5, memory = 40, disk = 70, stamp = ''12:00:00'' \<rparr>,
           stats_error_time = 1000, max_y = 24, cpu_now = 5, mem_now = 40,
           display_time = 1000 + 1 / 5, pressed = NoKey \<rparr>,
         \<lparr> current_time = 1040, files = one_file ''cognitive'' (Json (JArr [])),
           stats_reading = Some \<lparr> cpu = 6, memory = 41, disk = 70, stamp = ''12:00:40'' \<rparr>,
           stats_error_time = 1040, max_y = 24, cpu_now = 6, mem_now = 41,
           display_time = 1040 + 1 / 5, pressed = NoKey \<rparr>]
        (init_stream Cognitive, []))
     = [(0, Header ''cognitive''), (2, SystemInfo 6 41)]"
proof -
  have g: "gather Cognitive (one_file ''cognitive'' (Json (JArr []))) = Inr (JArr [])"
    by (simp add: gather_def gather_one_def path_exists_def json_load_def iterate_def)
  show ?thesis
    by (simp add: run_iteration_def update_interval_def Let_def update_system_stats_def
        screen_state_changed_def update_display_def g sort_by_time_empty addstr_def
        check_quit_def init_stream_def)
qed

section \<open>Initialization of the Activity Store\<close>

text \<open>
  \<^verbatim>\<open>Path.mkdir(parents=True, exist_ok=True)\<close>: nothing to do for a directory that is
  there; a file in the way is an \<^verbatim>\<open>OSError\<close> (\<^verbatim>\<open>FileExistsError\<close>, or
  \<^verbatim>\<open>NotADirectoryError\<close> for a parent); a missing directory is made after its parents.
  The empty path is the working directory.
\<close>

fun mkdir_parents :: "fs \<Rightarrow> path \<Rightarrow> error + fs" where
  "mkdir_parents fs p =
     (if p = [] then Inr fs
      else (case fs p of
              Some Dir \<Rightarrow> Inr fs
            | Some (File x) \<Rightarrow> Inl OSError
            | None \<Rightarrow>
                (case mkdir_parents fs (butlast p) of
                   Inl e \<Rightarrow> Inl e
                 | Inr fs' \<Rightarrow> Inr (fs'(p \<mapsto> Dir)))))"

declare mkdir_parents.simps [simp del]

text \<open>The body of the loop of \<^verbatim>\<open>__init__\<close> and of \<^verbatim>\<open>main\<close>: the directory of the
  component, then \<^verbatim>\<open>json.dump([], f)\<close> into its file if no such path exists. (The
  \<^verbatim>\<open>print\<close> of \<^verbatim>\<open>main\<close> is not modelled.)\<close>

definition init_component :: "fs \<Rightarrow> string \<Rightarrow> error + fs" where
  "init_component fs c =
     (case mkdir_parents fs (echo_dir @ [c]) of
        Inl e \<Rightarrow> Inl e
      | Inr fs1 \<Rightarrow>
          if path_exists fs1 (activity_file c) then Inr fs1
          else Inr (fs1(activity_file c \<mapsto> File (Json (JArr [])))))"

fun init_components :: "fs \<Rightarrow> string list \<Rightarrow> error + fs" where
  "init_components fs [] = Inr fs"
| "init_components fs (c # cs) =
     (case init_component fs c of
        Inl e \<Rightarrow> Inl e
      | Inr fs1 \<Rightarrow> init_components fs1 cs)"

text \<open>The files part of \<^verbatim>\<open>ActivityStream.__init__\<close>.\<close>

definition init_store :: "fs \<Rightarrow> error + fs" where
  "init_store fs = init_components fs components"

text \<open>The start of \<^verbatim>\<open>main\<close> in verbose mode, which makes \<^verbatim>\<open>activity_logs\<close> first.\<close>

definition main_init :: "fs \<Rightarrow> error + fs" where
  "main_init fs =
     (case mkdir_parents fs echo_dir of
        Inl e \<Rightarrow> Inl e
      | Inr fs0 \<Rightarrow> init_components fs0 components)"

lemma mkdir_parents_effect:
  "mkdir_parents fs p = Inr fs' \<Longrightarrow>
   (fs q \<noteq> None \<longrightarrow> fs' q = fs q) \<and> (length p < length q \<longrightarrow> fs' q = fs q)
   \<and> (fs' q = fs q \<or> fs' q = Some Dir)"
proof (induction fs p arbitrary: fs' rule: mkdir_parents.induct)
  case (1 fs p)
  show ?case
  proof (cases "p = []")
    case True
    with "1.prems" show ?thesis by (simp add: mkdir_parents.simps [of fs "[]"])
  next
    case False
    show ?thesis
    proof (cases "fs p")
      case None
      with False "1.prems"(1) obtain fs1 where
        m: "mkdir_parents fs (butlast p) = Inr fs1" and fs': "fs' = fs1(p \<mapsto> Dir)"
        by (auto simp: mkdir_parents.simps [of fs p] split: sum.splits)
      from "1.IH" [OF False None m] have
        "(fs q \<noteq> None \<longrightarrow> fs1 q = fs q) \<and> (length (butlast p) < length q \<longrightarrow> fs1 q = fs q)
         \<and> (fs1 q = fs q \<or> fs1 q = Some Dir)" .
      with None fs' show ?thesis by auto
    next
      case (Some n)
      with False "1.prems" show ?thesis
        by (cases n) (simp_all add: mkdir_parents.simps [of fs p])
    qed
  qed
qed

lemma mkdir_parents_frame:
  "mkdir_parents fs p = Inr fs' \<Longrightarrow> fs q \<noteq> None \<Longrightarrow> fs' q = fs q"
  using mkdir_parents_effect by blast

lemma mkdir_parents_touched:
  "mkdir_parents fs p = Inr fs' \<Longrightarrow> length p < length q \<Longrightarrow> fs' q = fs q"
  using mkdir_parents_effect by blast

lemma mkdir_parents_new:
  "mkdir_parents fs p = Inr fs' \<Longrightarrow> fs' q = fs q \<or> fs' q = Some Dir"
  using mkdir_parents_effect by blast

lemma mkdir_parents_dir:
  "mkdir_parents fs p = Inr fs' \<Longrightarrow> p \<noteq> [] \<Longrightarrow> fs' p = Some Dir"
  by (cases "fs p"; cases "the (fs p)")
    (auto simp: mkdir_parents.simps [of fs p] split: sum.splits)

lemma mkdir_parents_noop: "fs p = Some Dir \<Longrightarrow> mkdir_parents fs p = Inr fs"
  by (simp add: mkdir_parents.simps [of fs p])

text \<open>The directory of a component can be made unless a file stands where it or
  \<^verbatim>\<open>activity_logs\<close> should be.\<close>

definition is_file :: "fs \<Rightarrow> path \<Rightarrow> bool" where
  "is_file fs p = (case fs p of Some (File x) \<Rightarrow> True | _ \<Rightarrow> False)"

lemma mkdir_parents_echo_dir:
  "\<not> is_file fs echo_dir \<Longrightarrow> \<exists>fs'. mkdir_parents fs echo_dir = Inr fs'"
  by (cases "fs echo_dir"; cases "the (fs echo_dir)")
    (auto simp: is_file_def echo_dir_def mkdir_parents.simps [of fs "[''activity_logs'']"]
      mkdir_parents.simps [of fs "[]"])

lemma mkdir_parents_component:
  assumes "\<not> is_file fs echo_dir" and "\<not> is_file fs (echo_dir @ [c])"
  shows "\<exists>fs'. mkdir_parents fs (echo_dir @ [c]) = Inr fs'"
proof -
  from assms(1) obtain fs0 where "mkdir_parents fs echo_dir = Inr fs0"
    using mkdir_parents_echo_dir by blast
  with assms(2) show ?thesis
    by (cases "fs (echo_dir @ [c])"; cases "the (fs (echo_dir @ [c]))")
      (auto simp: is_file_def mkdir_parents.simps [of fs "echo_dir @ [c]"])
qed

lemma activity_file_inj [simp]: "activity_file c = activity_file k \<longleftrightarrow> c = k"
  by (simp add: activity_file_def)

lemma init_component_frame:
  assumes "init_component fs c = Inr fs'" and "fs q \<noteq> None"
  shows "fs' q = fs q"
proof -
  from assms(1) obtain fs1 where m: "mkdir_parents fs (echo_dir @ [c]) = Inr fs1"
    by (auto simp: init_component_def split: sum.splits)
  from mkdir_parents_frame [OF m assms(2)] have q: "fs1 q = fs q" .
  show ?thesis
  proof (cases "path_exists fs1 (activity_file c)")
    case True
    with assms(1) m q show ?thesis by (simp add: init_component_def)
  next
    case False
    with q assms(2) have "q \<noteq> activity_file c"
      by (auto simp: path_exists_def)
    with False assms(1) m q show ?thesis by (auto simp: init_component_def)
  qed
qed

lemma init_component_file:
  assumes "init_component fs c = Inr fs'"
  shows "fs' (activity_file k) =
    (if k = c \<and> fs (activity_file c) = None then Some (File (Json (JArr [])))
     else fs (activity_file k))"
proof -
  from assms(1) obtain fs1 where m: "mkdir_parents fs (echo_dir @ [c]) = Inr fs1"
    by (auto simp: init_component_def split: sum.splits)
  have "fs1 (activity_file k) = fs (activity_file k)" for k
    using m by (rule mkdir_parents_touched) (simp add: activity_file_def)
  with assms m show ?thesis
    by (auto simp: init_component_def path_exists_def split: if_splits)
qed

lemma init_component_dir:
  assumes "init_component fs c = Inr fs'"
  shows "fs' (echo_dir @ [c]) = Some Dir"
proof -
  from assms(1) obtain fs1 where m: "mkdir_parents fs (echo_dir @ [c]) = Inr fs1"
    by (auto simp: init_component_def split: sum.splits)
  then have "fs1 (echo_dir @ [c]) = Some Dir"
    by (rule mkdir_parents_dir) simp
  moreover have "echo_dir @ [c] \<noteq> activity_file c"
    by (simp add: activity_file_def)
  ultimately show ?thesis
    using assms m by (auto simp: init_component_def split: if_splits)
qed

text \<open>A component is ready when its directory and a path for its file are there; the
  body of the loop does nothing then.\<close>

definition ready :: "fs \<Rightarrow> string \<Rightarrow> bool" where
  "ready fs c = (fs (echo_dir @ [c]) = Some Dir \<and> fs (activity_file c) \<noteq> None)"

lemma init_component_ready: "init_component fs c = Inr fs' \<Longrightarrow> ready fs' c"
  by (simp add: ready_def init_component_dir init_component_file)

lemma init_component_noop: "ready fs c \<Longrightarrow> init_component fs c = Inr fs"
  by (simp add: ready_def init_component_def mkdir_parents_noop path_exists_def)

lemma init_component_keeps_ready:
  "init_component fs c = Inr fs' \<Longrightarrow> ready fs k \<Longrightarrow> ready fs' k"
  by (auto simp: ready_def dest: init_component_frame)

lemma init_components_frame:
  "init_components fs cs = Inr fs' \<Longrightarrow> fs q \<noteq> None \<Longrightarrow> fs' q = fs q"
proof (induction cs arbitrary: fs)
  case Nil
  then show ?case by simp
next
  case (Cons c cs)
  from Cons.prems(1) obtain fs1 where
    s: "init_component fs c = Inr fs1" and r: "init_components fs1 cs = Inr fs'"
    by (auto split: sum.splits)
  from init_component_frame [OF s Cons.prems(2)] have q: "fs1 q = fs q" .
  with Cons.prems(2) have "fs1 q \<noteq> None" by simp
  from Cons.IH [OF r this] q show ?case by simp
qed

lemma init_components_ready:
  "init_components fs cs = Inr fs' \<Longrightarrow> c \<in> set cs \<Longrightarrow> ready fs' c"
proof (induction cs arbitrary: fs)
  case Nil
  then show ?case by simp
next
  case (Cons k cs)
  from Cons.prems(1) obtain fs1 where
    s: "init_component fs k = Inr fs1" and r: "init_components fs1 cs = Inr fs'"
    by (auto split: sum.splits)
  show ?case
  proof (cases "c \<in> set cs")
    case True
    with r show ?thesis by (rule Cons.IH)
  next
    case False
    with Cons.prems(2) have "c = k" by simp
    with s have "ready fs1 c" by (simp add: init_component_ready)
    then show ?thesis
      using r by (auto simp: ready_def dest: init_components_frame)
  qed
qed

lemma init_components_noop:
  "list_all (ready fs) cs \<Longrightarrow> init_components fs cs = Inr fs"
  by (induction cs) (simp_all add: init_component_noop)

lemma init_components_file:
  "init_components fs cs = Inr fs' \<Longrightarrow> c \<in> set cs \<Longrightarrow>
   fs' (activity_file c) =
     (case fs (activity_file c) of None \<Rightarrow> Some (File (Json (JArr []))) | Some n \<Rightarrow> Some n)"
proof (induction cs arbitrary: fs)
  case Nil
  then show ?case by simp
next
  case (Cons k cs)
  from Cons.prems(1) obtain fs1 where
    s: "init_component fs k = Inr fs1" and r: "init_components fs1 cs = Inr fs'"
    by (auto split: sum.splits)
  show ?case
  proof (cases "fs (activity_file c)")
    case (Some n)
    with Cons.prems(1) show ?thesis
      using init_components_frame [of fs "k # cs" fs' "activity_file c"] by simp
  next
    case None
    show ?thesis
    proof (cases "k = c")
      case True
      with s None have "fs1 (activity_file c) = Some (File (Json (JArr [])))"
        by (simp add: init_component_file)
      with r None show ?thesis
        using init_components_frame [of fs1 cs fs' "activity_file c"] by simp
    next
      case False
      with s None have "fs1 (activity_file c) = None"
        by (simp add: init_component_file)
      moreover from False Cons.prems(2) have "c \<in> set cs" by simp
      ultimately show ?thesis
        using Cons.IH [OF r] None by simp
    qed
  qed
qed

lemma init_component_new:
  assumes "init_component fs c = Inr fs'"
  shows "fs' q = fs q \<or> fs' q = Some Dir \<or> q = activity_file c"
proof -
  from assms(1) obtain fs1 where m: "mkdir_parents fs (echo_dir @ [c]) = Inr fs1"
    by (auto simp: init_component_def split: sum.splits)
  from mkdir_parents_new [OF m, of q] assms m show ?thesis
    by (auto simp: init_component_def split: if_splits)
qed

lemma init_component_total:
  assumes "\<not> is_file fs echo_dir" and "\<not> is_file fs (echo_dir @ [c])"
  shows "\<exists>fs'. init_component fs c = Inr fs'"
proof -
  from assms obtain fs0 where "mkdir_parents fs (echo_dir @ [c]) = Inr fs0"
    using mkdir_parents_component by blast
  then show ?thesis
    by (simp add: init_component_def)
qed

lemma init_component_no_file:
  assumes "init_component fs c = Inr fs'" and "\<not> is_file fs q" and "length q \<le> 2"
  shows "\<not> is_file fs' q"
proof -
  have "q \<noteq> activity_file c"
    using assms(3) by (auto simp: activity_file_def echo_dir_def)
  with init_component_new [OF assms(1), of q] assms(2) show ?thesis
    by (auto simp: is_file_def)
qed

lemma init_components_total:
  "\<not> is_file fs echo_dir \<Longrightarrow> list_all (\<lambda>c. \<not> is_file fs (echo_dir @ [c])) cs \<Longrightarrow>
   \<exists>fs'. init_components fs cs = Inr fs'"
proof (induction cs arbitrary: fs)
  case Nil
  then show ?case by simp
next
  case (Cons c cs)
  from Cons.prems obtain fs1 where s: "init_component fs c = Inr fs1"
    using init_component_total [of fs c] by auto
  have "\<not> is_file fs1 echo_dir"
    using s Cons.prems(1) by (rule init_component_no_file) (simp add: echo_dir_def)
  moreover have "list_all (\<lambda>c. \<not> is_file fs1 (echo_dir @ [c])) cs"
    using Cons.prems(2) init_component_no_file [OF s]
    by (auto simp: list_all_iff echo_dir_def)
  ultimately obtain fs' where "init_components fs1 cs = Inr fs'"
    using Cons.IH by blast
  with s show ?case by simp
qed

lemma init_store_total:
  "\<not> is_file fs echo_dir \<Longrightarrow> list_all (\<lambda>c. \<not> is_file fs (echo_dir @ [c])) components \<Longrightarrow>
   \<exists>fs'. init_store fs = Inr fs'"
  by (simp add: init_store_def init_components_total)

text \<open>
  Claim C8. Whenever the initialization (of \<^verbatim>\<open>__init__\<close>, or of \<^verbatim>\<open>main\<close> in verbose
  mode) goes through, every component has its directory, and its \<^verbatim>\<open>activity.json\<close> is
  the empty list if there was no such path and is what it was otherwise; no path that
  existed is changed, so no file with content is overwritten; and running the same
  initialization again changes nothing.
\<close>

theorem init_store_idempotent:
  assumes "init_store fs = Inr fs' \<or> main_init fs = Inr fs'"
  shows "(\<forall>c\<in>set components.
            fs' (echo_dir @ [c]) = Some Dir
          \<and> fs' (activity_file c) =
              (case fs (activity_file c) of
                 None \<Rightarrow> Some (File (Json (JArr [])))
               | Some n \<Rightarrow> Some n))
       \<and> (\<forall>q. fs q \<noteq> None \<longrightarrow> fs' q = fs q)
       \<and> (init_store fs = Inr fs' \<longrightarrow> init_store fs' = Inr fs')
       \<and> (main_init fs = Inr fs' \<longrightarrow> main_init fs' = Inr fs')"
proof -
  from assms obtain fs0 where
    m: "fs0 = fs \<or> mkdir_parents fs echo_dir = Inr fs0"
    and l: "init_components fs0 components = Inr fs'"
    by (auto simp: init_store_def main_init_def split: sum.splits)
  have same: "fs0 (activity_file c) = fs (activity_file c)" for c
    using m mkdir_parents_touched [of fs echo_dir fs0 "activity_file c"]
    by (auto simp: activity_file_def)
  have frame0: "fs0 q = fs q" if "fs q \<noteq> None" for q
    using m that by (auto dest: mkdir_parents_frame)
  have rdy: "ready fs' c" if "c \<in> set components" for c
    using l that by (rule init_components_ready)
  then have all_ready: "list_all (ready fs') components"
    by (simp add: list_all_iff)
  have dirs: "fs' (echo_dir @ [c]) = Some Dir
      \<and> fs' (activity_file c) =
          (case fs (activity_file c) of
             None \<Rightarrow> Some (File (Json (JArr [])))
           | Some n \<Rightarrow> Some n)"
    if "c \<in> set components" for c
    using rdy [OF that] init_components_file [OF l that] same [of c]
    by (simp add: ready_def)
  have frame: "fs' q = fs q" if "fs q \<noteq> None" for q
    using init_components_frame [OF l, of q] frame0 [OF that] that by simp
  have again: "init_store fs' = Inr fs'"
    using all_ready by (simp add: init_store_def init_components_noop)
  have again_main: "main_init fs' = Inr fs'" if "main_init fs = Inr fs'"
  proof -
    from that obtain fs1 where e: "mkdir_parents fs echo_dir = Inr fs1"
      by (auto simp: main_init_def split: sum.splits)
    with that have l1: "init_components fs1 components = Inr fs'"
      by (simp add: main_init_def)
    from e have "fs1 echo_dir = Some Dir"
      by (rule mkdir_parents_dir) (simp add: echo_dir_def)
    with l1 have "fs' echo_dir = Some Dir"
      using init_components_frame [of fs1 components fs' echo_dir] by simp
    then have "mkdir_parents fs' echo_dir = Inr fs'"
      by (rule mkdir_parents_noop)
    with all_ready show ?thesis
      by (simp add: main_init_def init_components_noop)
  qed
  from dirs frame again again_main show ?thesis by blast
qed

theorem init_store_idempotent_witness:
  "\<exists>fs'. init_store (one_file ''ml'' (Json (JArr [JObj [(''time'', JNum 1000)]]))) = Inr fs'
      \<and> fs' (activity_file ''ml'') = Some (File (Json (JArr [JObj [(''time'', JNum 1000)]])))
      \<and> fs' (activity_file ''cognitive'') = Some (File (Json (JArr [])))
      \<and> fs' (echo_dir @ [''cognitive'']) = Some Dir
      \<and> init_store fs' = Inr fs'"
proof -
  let ?fs = "one_file ''ml'' (Json (JArr [JObj [(''time'', JNum 1000)]]))"
  have "\<not> is_file ?fs echo_dir"
    by (simp add: is_file_def one_file_def)
  moreover have "list_all (\<lambda>c. \<not> is_file ?fs (echo_dir @ [c])) components"
    by (simp add: is_file_def one_file_def components_def activity_file_def echo_dir_def)
  ultimately obtain fs' where i: "init_store ?fs = Inr fs'"
    using init_store_total by blast
  have c: "''ml'' \<in> set components" "''cognitive'' \<in> set components"
    by (simp_all add: components_def)
  have f: "?fs (activity_file ''ml'') = Some (File (Json (JArr [JObj [(''time'', JNum 1000)]])))"
    "?fs (activity_file ''cognitive'') = None"
    by (simp_all add: one_file_other)
  from init_store_idempotent [of ?fs fs'] i c f show ?thesis
    by auto
qed

section \<open>Tail mode: the loop of \<^verbatim>\<open>main\<close> with \<^verbatim>\<open>--verbose\<close>\<close>

text \<open>
  What tail mode prints. A line for an activity carries the values it is formatted from:
  whether it is in red (the \<^verbatim>\<open>emergency\<close> component), the component, the timestamp
  (formatted when \<^verbatim>\<open>time\<close> is a number, printed as it is otherwise) and the message (the
  \<^verbatim>\<open>description\<close>, or the whole record when it has none).
\<close>

datatype stamp_text = Formatted string | Unformatted json

datatype message = Description json | Whole json

datatype out_line =
    EventLine bool string stamp_text message
  | InvalidJsonWarning string
  | ReadError string
  | HeartbeatLine

fun line_component :: "out_line \<Rightarrow> string option" where
  "line_component (EventLine em c ts m) = Some c"
| "line_component (InvalidJsonWarning c) = Some c"
| "line_component (ReadError c) = Some c"
| "line_component HeartbeatLine = None"

text \<open>
  The body of \<^verbatim>\<open>for activity in new_activities\<close>: \<^verbatim>\<open>activity.get('time', time.time())\<close>,
  formatted with \<^verbatim>\<open>fromtimestamp\<close> when it is an int or a float (which raises out of
  range), and the message. Only a dict has \<^verbatim>\<open>get\<close>. \<open>now\<close> is the reading of the clock.
\<close>

definition event_line :: "(rat \<Rightarrow> string option) \<Rightarrow> rat \<Rightarrow> string \<Rightarrow> json \<Rightarrow> error + out_line" where
  "event_line fmt now c a =
     (case a of
        JObj d \<Rightarrow>
          (let msg = (case map_of d ''description'' of
                        Some m \<Rightarrow> Description m
                      | None \<Rightarrow> Whole a)
           in case dict_get d ''time'' (JNum now) of
                JNum r \<Rightarrow>
                  (case fmt r of
                     None \<Rightarrow> Inl ValueError
                   | Some s \<Rightarrow> Inr (EventLine (c = ''emergency'') c (Formatted s) msg))
              | JBool b \<Rightarrow>
                  (case fmt (if b then 1 else 0) of
                     None \<Rightarrow> Inl ValueError
                   | Some s \<Rightarrow> Inr (EventLine (c = ''emergency'') c (Formatted s) msg))
              | t \<Rightarrow> Inr (EventLine (c = ''emergency'') c (Unformatted t) msg))
      | _ \<Rightarrow> Inl AttributeError)"

text \<open>The loop over the new activities: the lines printed, and the exception that ended
  the loop, if any. What was printed before the exception stays printed.\<close>

fun print_new ::
  "(rat \<Rightarrow> string option) \<Rightarrow> rat \<Rightarrow> string \<Rightarrow> json list \<Rightarrow> out_line list \<times> error option" where
  "print_new fmt now c [] = ([], None)"
| "print_new fmt now c (a # as) =
     (case event_line fmt now c a of
        Inl e \<Rightarrow> ([], Some e)
      | Inr l \<Rightarrow> (case print_new fmt now c as of (ls, r) \<Rightarrow> (l # ls, r)))"

text \<open>
  One turn of \<^verbatim>\<open>for activity_type, path in paths.items()\<close>: the new \<^verbatim>\<open>last_seen\<close>,
  the lines printed, and whether \<^verbatim>\<open>any_events\<close> was set. Only a list is processed;
  \<^verbatim>\<open>last_seen[activity_type]\<close> is assigned after the loop over the new activities, so
  not when that loop raises.
\<close>

type_synonym seen = "string \<rightharpoonup> json list"

definition tail_component ::
  "(rat \<Rightarrow> string option) \<Rightarrow> rat \<Rightarrow> fs \<Rightarrow> string \<Rightarrow> seen \<Rightarrow> seen \<times> out_line list \<times> bool" where
  "tail_component fmt now fs c last_seen =
     (if path_exists fs (activity_file c) then
        (case json_load fs (activity_file c) of
           Inl JSONDecodeError \<Rightarrow> (last_seen, [InvalidJsonWarning c], False)
         | Inl e \<Rightarrow> (last_seen, [ReadError c], False)
         | Inr (JArr loaded) \<Rightarrow>
             (case last_seen c of
                None \<Rightarrow> (last_seen, [ReadError c], False)
              | Some old \<Rightarrow>
                  (let new_activities = drop (length old) loaded
                   in case print_new fmt now c new_activities of
                        (ls, Some e) \<Rightarrow> (last_seen, ls @ [ReadError c], new_activities \<noteq> [])
                      | (ls, None) \<Rightarrow>
                          (last_seen(c \<mapsto> loaded), ls, new_activities \<noteq> [])))
         | Inr _ \<Rightarrow> (last_seen, [], False))
      else (last_seen, [], False))"

fun tail_components ::
  "(rat \<Rightarrow> string option) \<Rightarrow> rat \<Rightarrow> fs \<Rightarrow> string list \<Rightarrow> seen \<Rightarrow> seen \<times> out_line list \<times> bool" where
  "tail_components fmt now fs [] last_seen = (last_seen, [], False)"
| "tail_components fmt now fs (c # cs) last_seen =
     (case tail_component fmt now fs c last_seen of
        (seen1, out1, ev1) \<Rightarrow>
          (case tail_components fmt now fs cs seen1 of
             (seen2, out2, ev2) \<Rightarrow> (seen2, out1 @ out2, ev1 \<or> ev2)))"

text \<open>What one turn of \<^verbatim>\<open>while True\<close> reads from outside: the clock for the records
  without a time, the files, and the clock of the heartbeat test.\<close>

record tail_env =
  tail_clock :: rat
  tail_files :: fs
  heartbeat_clock :: rat

text \<open>\<^verbatim>\<open>time.time() % 30 < 0.1\<close>\<close>

definition heartbeat_due :: "rat \<Rightarrow> bool" where
  "heartbeat_due t = (t - 30 * of_int \<lfloor>t / 30\<rfloor> < 1 / 10)"

definition tail_cycle ::
  "(rat \<Rightarrow> string option) \<Rightarrow> tail_env \<Rightarrow> seen \<Rightarrow> seen \<times> out_line list" where
  "tail_cycle fmt e last_seen =
     (case tail_components fmt (tail_clock e) (tail_files e) components last_seen of
        (seen', out, any_events) \<Rightarrow>
          (seen',
           out @ (if \<not> any_events \<and> heartbeat_due (heartbeat_clock e)
                  then [HeartbeatLine] else [])))"

text \<open>The loop, over the successive states of the outside world, from
  \<^verbatim>\<open>last_seen = {k: [] for k in paths.keys()}\<close>; the lines of all the turns.\<close>

fun tail_run ::
  "(rat \<Rightarrow> string option) \<Rightarrow> tail_env list \<Rightarrow> seen \<Rightarrow> seen \<times> out_line list" where
  "tail_run fmt [] last_seen = (last_seen, [])"
| "tail_run fmt (e # es) last_seen =
     (case tail_cycle fmt e last_seen of
        (seen1, out1) \<Rightarrow>
          (case tail_run fmt es seen1 of (seen2, out2) \<Rightarrow> (seen2, out1 @ out2)))"

definition init_seen :: seen where
  "init_seen = map_of (map (\<lambda>c. (c, [])) components)"

text \<open>The cursor of a component: the number of records already printed, which is the
  length of what \<^verbatim>\<open>last_seen\<close> holds for it.\<close>

definition cursor :: "seen \<Rightarrow> string \<Rightarrow> nat" where
  "cursor last_seen c = (case last_seen c of None \<Rightarrow> 0 | Some old \<Rightarrow> length old)"

text \<open>The lines of a component among printed lines.\<close>

definition lines_of :: "string \<Rightarrow> out_line list \<Rightarrow> out_line list" where
  "lines_of c out = filter (\<lambda>l. line_component l = Some c) out"

section \<open>Properties of tail mode\<close>

lemma print_new_tagged:
  "l \<in> set (fst (print_new fmt now c as)) \<Longrightarrow> line_component l = Some c"
proof (induction as arbitrary: l)
  case Nil
  then show ?case by simp
next
  case (Cons a as)
  show ?case
  proof (cases "event_line fmt now c a")
    case (Inl e)
    with Cons.prems show ?thesis by simp
  next
    case (Inr l')
    then have "line_component l' = Some c"
      by (auto simp: event_line_def Let_def split: json.splits option.splits)
    with Inr Cons show ?thesis
      by (auto split: prod.splits)
  qed
qed

lemma tail_component_seen_other:
  "k \<noteq> c \<Longrightarrow> fst (tail_component fmt now fs c seen) k = seen k"
  by (auto simp: tail_component_def Let_def
      split: sum.splits error.splits json.splits option.splits prod.splits)

lemma print_new_tagged':
  "print_new fmt now c as = (ls, r) \<Longrightarrow> l \<in> set ls \<Longrightarrow> line_component l = Some c"
  using print_new_tagged [of l fmt now c as] by simp

lemma tail_component_tagged:
  "l \<in> set (fst (snd (tail_component fmt now fs c seen))) \<Longrightarrow> line_component l = Some c"
  by (auto simp: tail_component_def Let_def dest: print_new_tagged'
      split: if_splits sum.splits error.splits json.splits option.splits prod.splits)

lemma tail_component_cong:
  "seen c = seen' c \<Longrightarrow>
   fst (tail_component fmt now fs c seen) c = fst (tail_component fmt now fs c seen') c
   \<and> snd (tail_component fmt now fs c seen) = snd (tail_component fmt now fs c seen')"
  by (auto simp: tail_component_def Let_def
      split: sum.splits error.splits json.splits option.splits prod.splits)

lemma lines_of_tagged:
  "(\<And>l. l \<in> set out \<Longrightarrow> line_component l = Some k) \<Longrightarrow>
   lines_of c out = (if k = c then out else [])"
  by (induction out) (auto simp: lines_of_def)

lemma lines_of_append [simp]: "lines_of c (xs @ ys) = lines_of c xs @ lines_of c ys"
  by (simp add: lines_of_def)

lemma tail_components_not_in:
  "c \<notin> set cs \<Longrightarrow>
   fst (tail_components fmt now fs cs seen) c = seen c
   \<and> lines_of c (fst (snd (tail_components fmt now fs cs seen))) = []"
proof (induction cs arbitrary: seen)
  case Nil
  then show ?case by (simp add: lines_of_def)
next
  case (Cons k cs)
  obtain seen1 out1 ev1 where s: "tail_component fmt now fs k seen = (seen1, out1, ev1)"
    by (cases "tail_component fmt now fs k seen") auto
  obtain seen2 out2 ev2 where r: "tail_components fmt now fs cs seen1 = (seen2, out2, ev2)"
    by (cases "tail_components fmt now fs cs seen1") auto
  from Cons.prems have kc: "k \<noteq> c" and c: "c \<notin> set cs" by auto
  from s kc have "seen1 c = seen c"
    using tail_component_seen_other [of c k fmt now fs seen] by simp
  moreover from s kc have "lines_of c out1 = []"
    using lines_of_tagged [of out1 k c] tail_component_tagged [of _ fmt now fs k seen] by simp
  moreover from Cons.IH [OF c, of seen1] r have "seen2 c = seen1 c" "lines_of c out2 = []"
    by simp_all
  ultimately show ?case using s r by simp
qed

lemma tail_components_at:
  "distinct cs \<Longrightarrow> c \<in> set cs \<Longrightarrow>
   fst (tail_components fmt now fs cs seen) c = fst (tail_component fmt now fs c seen) c
   \<and> lines_of c (fst (snd (tail_components fmt now fs cs seen)))
     = fst (snd (tail_component fmt now fs c seen))"
proof (induction cs arbitrary: seen)
  case Nil
  then show ?case by simp
next
  case (Cons k cs)
  obtain seen1 out1 ev1 where s: "tail_component fmt now fs k seen = (seen1, out1, ev1)"
    by (cases "tail_component fmt now fs k seen") auto
  obtain seen2 out2 ev2 where r: "tail_components fmt now fs cs seen1 = (seen2, out2, ev2)"
    by (cases "tail_components fmt now fs cs seen1") auto
  show ?case
  proof (cases "k = c")
    case True
    with Cons.prems have "c \<notin> set cs" by simp
    from tail_components_not_in [OF this, of fmt now fs seen1] r
    have "seen2 c = seen1 c" "lines_of c out2 = []" by simp_all
    moreover from s True have "lines_of c out1 = out1"
      using lines_of_tagged [of out1 k c] tail_component_tagged [of _ fmt now fs k seen] by simp
    ultimately show ?thesis using s r True by simp
  next
    case False
    with Cons.prems have d: "distinct cs" and c: "c \<in> set cs" by simp_all
    from s False have same: "seen1 c = seen c"
      using tail_component_seen_other [of c k fmt now fs seen] by simp
    from s False have "lines_of c out1 = []"
      using lines_of_tagged [of out1 k c] tail_component_tagged [of _ fmt now fs k seen] by simp
    moreover from Cons.IH [OF d c, of seen1] r have
      "seen2 c = fst (tail_component fmt now fs c seen1) c"
      "lines_of c out2 = fst (snd (tail_component fmt now fs c seen1))"
      by simp_all
    moreover from same have
      "fst (tail_component fmt now fs c seen1) c = fst (tail_component fmt now fs c seen) c
       \<and> snd (tail_component fmt now fs c seen1) = snd (tail_component fmt now fs c seen)"
      by (rule tail_component_cong)
    ultimately show ?thesis using s r by simp
  qed
qed

text \<open>In one turn of the loop, what happens to a component is what its own turn of the
  inner loop does.\<close>

lemma tail_cycle_component:
  assumes "c \<in> set components"
  shows "fst (tail_cycle fmt e seen) c
      = fst (tail_component fmt (tail_clock e) (tail_files e) c seen) c"
    and "lines_of c (snd (tail_cycle fmt e seen))
      = fst (snd (tail_component fmt (tail_clock e) (tail_files e) c seen))"
  using tail_components_at [OF distinct_components assms, of fmt "tail_clock e" "tail_files e" seen]
  by (auto simp: tail_cycle_def lines_of_def split: prod.splits)

lemma tail_cycle_not_component:
  "c \<notin> set components \<Longrightarrow> fst (tail_cycle fmt e seen) c = seen c"
  using tail_components_not_in [of c components fmt "tail_clock e" "tail_files e" seen]
  by (auto simp: tail_cycle_def split: prod.splits)

text \<open>A record can be printed when it is an object whose time, if a number, can be
  formatted.\<close>

definition printable :: "(rat \<Rightarrow> string option) \<Rightarrow> rat \<Rightarrow> string \<Rightarrow> json \<Rightarrow> bool" where
  "printable fmt now c a = (case event_line fmt now c a of Inl e \<Rightarrow> False | Inr l \<Rightarrow> True)"

lemma print_new_printable:
  "list_all (printable fmt now c) as \<Longrightarrow>
   \<exists>ls. print_new fmt now c as = (ls, None)
      \<and> list_all2 (\<lambda>a l. event_line fmt now c a = Inr l) as ls"
proof (induction as)
  case Nil
  then show ?case by simp
next
  case (Cons a as)
  then obtain l where "event_line fmt now c a = Inr l"
    by (auto simp: printable_def split: sum.splits)
  moreover from Cons obtain ls where "print_new fmt now c as = (ls, None)"
    "list_all2 (\<lambda>a l. event_line fmt now c a = Inr l) as ls"
    by auto
  ultimately show ?case by simp
qed

lemma tail_component_grow:
  assumes "seen c = Some old"
    and "fs (activity_file c) = Some (File (Json (JArr (old @ new))))"
    and "list_all (printable fmt now c) new"
  shows "\<exists>ls. tail_component fmt now fs c seen = (seen(c \<mapsto> old @ new), ls, new \<noteq> [])
      \<and> list_all2 (\<lambda>a l. event_line fmt now c a = Inr l) new ls"
proof -
  from print_new_printable [OF assms(3)] obtain ls where
    "print_new fmt now c new = (ls, None)"
    "list_all2 (\<lambda>a l. event_line fmt now c a = Inr l) new ls"
    by blast
  with assms(1,2) show ?thesis
    by (simp add: tail_component_def path_exists_def json_load_def)
qed

lemma tail_component_shrink:
  assumes "seen c = Some old"
    and "fs (activity_file c) = Some (File (Json (JArr loaded)))"
    and "length loaded \<le> length old"
  shows "tail_component fmt now fs c seen = (seen(c \<mapsto> loaded), [], False)"
  using assms by (simp add: tail_component_def path_exists_def json_load_def)

definition is_array :: "json \<Rightarrow> bool" where
  "is_array j = (case j of JArr xs \<Rightarrow> True | _ \<Rightarrow> False)"

lemma tail_component_not_array:
  assumes "fs (activity_file c) = Some (File (Json j))" and "\<not> is_array j"
  shows "tail_component fmt now fs c seen = (seen, [], False)"
  using assms
  by (cases j) (simp_all add: tail_component_def path_exists_def json_load_def is_array_def)

lemma tail_component_needs_array:
  assumes "fst (tail_component fmt now fs c seen) c \<noteq> seen c
      \<or> EventLine em c ts m \<in> set (fst (snd (tail_component fmt now fs c seen)))"
  shows "\<exists>xs. fs (activity_file c) = Some (File (Json (JArr xs)))"
proof (cases "fs (activity_file c)")
  case None
  with assms show ?thesis by (simp add: tail_component_def path_exists_def)
next
  case (Some n)
  show ?thesis
  proof (cases n)
    case Dir
    with Some assms show ?thesis
      by (simp add: tail_component_def path_exists_def json_load_def)
  next
    case (File x)
    show ?thesis
    proof (cases x)
      case Malformed
      with Some File assms show ?thesis
        by (simp add: tail_component_def path_exists_def json_load_def)
    next
      case (Json j)
      show ?thesis
      proof (cases "is_array j")
        case True
        with Some File Json show ?thesis
          by (cases j) (simp_all add: is_array_def)
      next
        case False
        with Some File Json assms show ?thesis
          by (simp add: tail_component_not_array)
      qed
    qed
  qed
qed

lemma heartbeat_not_due_17: "\<not> heartbeat_due 17"
proof -
  have "\<lfloor>(17::rat) / 30\<rfloor> = 0"
    by (simp add: floor_eq_iff)
  then show ?thesis
    by (simp add: heartbeat_due_def)
qed

text \<open>
  Claim C10. In every turn of the loop and for every component: a log file whose payload
  is not an array (an object, with or without \<^verbatim>\<open>history\<close>, or any other value) prints
  no line for the component and leaves its entry of \<^verbatim>\<open>last_seen\<close>, hence its cursor,
  as it is; and whenever a record of the component is printed or its entry changes, the
  payload of its file is an array.
\<close>

theorem tail_only_arrays:
  assumes "c \<in> set components"
  shows "(tail_files e (activity_file c) = Some (File (Json j)) \<and> \<not> is_array j
          \<longrightarrow> lines_of c (snd (tail_cycle fmt e seen)) = []
            \<and> fst (tail_cycle fmt e seen) c = seen c
            \<and> cursor (fst (tail_cycle fmt e seen)) c = cursor seen c)
       \<and> (fst (tail_cycle fmt e seen) c \<noteq> seen c
            \<or> EventLine em c ts m \<in> set (snd (tail_cycle fmt e seen))
          \<longrightarrow> (\<exists>xs. tail_files e (activity_file c) = Some (File (Json (JArr xs)))))"
proof -
  note cyc = tail_cycle_component [OF assms, of fmt e seen]
  have skip: "lines_of c (snd (tail_cycle fmt e seen)) = []
      \<and> fst (tail_cycle fmt e seen) c = seen c
      \<and> cursor (fst (tail_cycle fmt e seen)) c = cursor seen c"
    if "tail_files e (activity_file c) = Some (File (Json j))" "\<not> is_array j"
    using cyc that tail_component_not_array [of "tail_files e" c j fmt "tail_clock e" seen]
    by (simp add: cursor_def)
  have arr: "\<exists>xs. tail_files e (activity_file c) = Some (File (Json (JArr xs)))"
    if "fst (tail_cycle fmt e seen) c \<noteq> seen c
        \<or> EventLine em c ts m \<in> set (snd (tail_cycle fmt e seen))"
  proof -
    have "EventLine em c ts m \<in> set (lines_of c (snd (tail_cycle fmt e seen)))"
      if "EventLine em c ts m \<in> set (snd (tail_cycle fmt e seen))"
      using that by (simp add: lines_of_def)
    with that cyc have
      "fst (tail_component fmt (tail_clock e) (tail_files e) c seen) c \<noteq> seen c
       \<or> EventLine em c ts m
          \<in> set (fst (snd (tail_component fmt (tail_clock e) (tail_files e) c seen)))"
      by auto
    then show ?thesis by (rule tail_component_needs_array)
  qed
  from skip arr show ?thesis by blast
qed

theorem tail_only_arrays_witness:
  "lines_of ''ml''
     (snd (tail_cycle (\<lambda>t. Some ''00:00:00'')
        \<lparr> tail_clock = 5,
          tail_files = one_file ''ml''
            (Json (JObj [(''history'', JArr [JObj [(''time'', JNum 1)]])])),
          heartbeat_clock = 17 \<rparr>
        init_seen)) = []
   \<and> cursor (fst (tail_cycle (\<lambda>t. Some ''00:00:00'')
        \<lparr> tail_clock = 5,
          tail_files = one_file ''ml''
            (Json (JObj [(''history'', JArr [JObj [(''time'', JNum 1)]])])),
          heartbeat_clock = 17 \<rparr>
        init_seen)) ''ml'' = 0"
proof -
  have c: "''ml'' \<in> set components"
    by (simp add: components_def)
  have z: "cursor init_seen ''ml'' = 0"
    by (simp add: cursor_def init_seen_def components_def)
  have a: "\<not> is_array (JObj [(''history'', JArr [JObj [(''time'', JNum 1)]])])"
    by (simp add: is_array_def)
  from c tail_only_arrays [of "''ml''"
      "\<lparr> tail_clock = 5,
          tail_files = one_file ''ml''
            (Json (JObj [(''history'', JArr [JObj [(''time'', JNum 1)]])])),
          heartbeat_clock = 17 \<rparr>"
      "JObj [(''history'', JArr [JObj [(''time'', JNum 1)]])]"] a z
  show ?thesis by simp
qed

text \<open>
  Claim C3, as stated, fails in its second half. The \<^verbatim>\<open>ml\<close> log holds two records in
  the first turn, which prints them; it is then replaced by a log with one record. The
  second turn prints nothing, not the new content; the cursor is the new length, 1.
\<close>

theorem tail_replaced_file_counterexample:
  "snd (tail_cycle (\<lambda>t. Some ''00:00:00'')
      \<lparr> tail_clock = 5,
        tail_files = one_file ''ml'' (Json (JArr [JObj [(''time'', JNum 3)]])),
        heartbeat_clock = 17 \<rparr>
      (fst (tail_cycle (\<lambda>t. Some ''00:00:00'')
         \<lparr> tail_clock = 5,
           tail_files = one_file ''ml''
             (Json (JArr [JObj [(''time'', JNum 1)], JObj [(''time'', JNum 2)]])),
           heartbeat_clock = 17 \<rparr>
         init_seen))) = []
   \<and> cursor (fst (tail_cycle (\<lambda>t. Some ''00:00:00'')
      \<lparr> tail_clock = 5,
        tail_files = one_file ''ml'' (Json (JArr [JObj [(''time'', JNum 3)]])),
        heartbeat_clock = 17 \<rparr>
      (fst (tail_cycle (\<lambda>t. Some ''00:00:00'')
         \<lparr> tail_clock = 5,
           tail_files = one_file ''ml''
             (Json (JArr [JObj [(''time'', JNum 1)], JObj [(''time'', JNum 2)]])),
           heartbeat_clock = 17 \<rparr>
         init_seen)))) ''ml'' = 1"
  by (simp add: tail_cycle_def components_def tail_component_def path_exists_def
      one_file_def activity_file_def echo_dir_def json_load_def init_seen_def
      event_line_def dict_get_def heartbeat_not_due_17 cursor_def)

text \<open>
  Claim C3, amended. In tail mode, for every component whose \<^verbatim>\<open>last_seen\<close> holds the
  array read before: if the array has grown by appending K new records that can be
  printed (objects whose time, when a number, can be formatted), the turn prints exactly
  one line for each of them, in order, and the cursor advances by K; if the file has been
  replaced by an array with fewer records than the cursor, the turn prints nothing for
  the component and the cursor becomes the new length.
\<close>

theorem tail_delta:
  assumes "c \<in> set components"
    and "seen c = Some old"
    and "tail_files e (activity_file c) = Some (File (Json (JArr loaded)))"
  shows "(loaded = old @ new \<and> list_all (printable fmt (tail_clock e) c) new
          \<longrightarrow> list_all2 (\<lambda>a l. event_line fmt (tail_clock e) c a = Inr l) new
                (lines_of c (snd (tail_cycle fmt e seen)))
            \<and> length (lines_of c (snd (tail_cycle fmt e seen))) = length new
            \<and> cursor (fst (tail_cycle fmt e seen)) c = cursor seen c + length new)
       \<and> (length loaded < length old
          \<longrightarrow> lines_of c (snd (tail_cycle fmt e seen)) = []
            \<and> cursor (fst (tail_cycle fmt e seen)) c = length loaded)"
proof -
  note cyc = tail_cycle_component [OF assms(1), of fmt e seen]
  have grow: "list_all2 (\<lambda>a l. event_line fmt (tail_clock e) c a = Inr l) new
        (lines_of c (snd (tail_cycle fmt e seen)))
      \<and> length (lines_of c (snd (tail_cycle fmt e seen))) = length new
      \<and> cursor (fst (tail_cycle fmt e seen)) c = cursor seen c + length new"
    if l: "loaded = old @ new" and p: "list_all (printable fmt (tail_clock e) c) new"
  proof -
    from assms(3) l have f: "tail_files e (activity_file c) = Some (File (Json (JArr (old @ new))))"
      by simp
    from assms(2) f p tail_component_grow [of seen c old "tail_files e" new fmt "tail_clock e"]
    obtain ls where
      t: "tail_component fmt (tail_clock e) (tail_files e) c seen
          = (seen(c \<mapsto> old @ new), ls, new \<noteq> [])"
      and a: "list_all2 (\<lambda>a l. event_line fmt (tail_clock e) c a = Inr l) new ls"
      by blast
    from a have "length ls = length new"
      by (simp add: list_all2_lengthD)
    with cyc t a assms(2) show ?thesis
      by (simp add: cursor_def)
  qed
  have shrink: "lines_of c (snd (tail_cycle fmt e seen)) = []
      \<and> cursor (fst (tail_cycle fmt e seen)) c = length loaded"
    if "length loaded < length old"
  proof -
    from that have "length loaded \<le> length old" by simp
    with assms(2,3) cyc
      tail_component_shrink [of seen c old "tail_files e" loaded fmt "tail_clock e"]
    show ?thesis by (simp add: cursor_def)
  qed
  from grow shrink show ?thesis by blast
qed

theorem tail_delta_witness:
  "lines_of ''ml''
     (snd (tail_cycle (\<lambda>t. Some ''00:00:00'')
        \<lparr> tail_clock = 5,
          tail_files = one_file ''ml''
            (Json (JArr [JObj [(''time'', JNum 1)], JObj [(''time'', JNum 2)],
                         JObj [(''description'', JStr ''trial 3'')]])),
          heartbeat_clock = 17 \<rparr>
        (init_seen(''ml'' \<mapsto> [JObj [(''time'', JNum 1)]]))))
     = [EventLine False ''ml'' (Formatted ''00:00:00'') (Whole (JObj [(''time'', JNum 2)])),
        EventLine False ''ml'' (Formatted ''00:00:00'') (Description (JStr ''trial 3''))]
   \<and> cursor (fst (tail_cycle (\<lambda>t. Some ''00:00:00'')
        \<lparr> tail_clock = 5,
          tail_files = one_file ''ml''
            (Json (JArr [JObj [(''time'', JNum 1)], JObj [(''time'', JNum 2)],
                         JObj [(''description'', JStr ''trial 3'')]])),
          heartbeat_clock = 17 \<rparr>
        (init_seen(''ml'' \<mapsto> [JObj [(''time'', JNum 1)]])))) ''ml'' = 3"
proof -
  let ?e = "\<lparr> tail_clock = 5,
          tail_files = one_file ''ml''
            (Json (JArr [JObj [(''time'', JNum 1)], JObj [(''time'', JNum 2)],
                         JObj [(''description'', JStr ''trial 3'')]])),
          heartbeat_clock = 17 \<rparr>"
  let ?seen = "init_seen(''ml'' \<mapsto> [JObj [(''time'', JNum 1)]])"
  let ?new = "[JObj [(''time'', JNum 2)], JObj [(''description'', JStr ''trial 3'')]]"
  have c: "''ml'' \<in> set components"
    by (simp add: components_def)
  have s: "?seen ''ml'' = Some [JObj [(''time'', JNum 1)]]"
    by simp
  have f: "tail_files ?e (activity_file ''ml'')
      = Some (File (Json (JArr [JObj [(''time'', JNum 1)], JObj [(''time'', JNum 2)],
                         JObj [(''description'', JStr ''trial 3'')]])))"
    by simp
  have p: "list_all (printable (\<lambda>t. Some ''00:00:00'') (tail_clock ?e) ''ml'') ?new"
    by (simp add: printable_def event_line_def dict_get_def)
  have ev: "event_line (\<lambda>t. Some ''00:00:00'') 5 ''ml'' (JObj [(''time'', JNum 2)])
      = Inr (EventLine False ''ml'' (Formatted ''00:00:00'') (Whole (JObj [(''time'', JNum 2)])))"
    "event_line (\<lambda>t. Some ''00:00:00'') 5 ''ml'' (JObj [(''description'', JStr ''trial 3'')])
      = Inr (EventLine False ''ml'' (Formatted ''00:00:00'') (Description (JStr ''trial 3'')))"
    by (simp_all add: event_line_def dict_get_def)
  have cur: "cursor ?seen ''ml'' = 1"
    by (simp add: cursor_def)
  from c s f tail_delta [of "''ml''" ?seen "[JObj [(''time'', JNum 1)]]" ?e
      "[JObj [(''time'', JNum 1)], JObj [(''time'', JNum 2)],
        JObj [(''description'', JStr ''trial 3'')]]" ?new "\<lambda>t. Some ''00:00:00''"] p cur
  have "list_all2 (\<lambda>a l. event_line (\<lambda>t. Some ''00:00:00'') 5 ''ml'' a = Inr l) ?new
      (lines_of ''ml'' (snd (tail_cycle (\<lambda>t. Some ''00:00:00'') ?e ?seen)))"
    and "cursor (fst (tail_cycle (\<lambda>t. Some ''00:00:00'') ?e ?seen)) ''ml'' = 3"
    by simp_all
  with ev show ?thesis
    by (auto simp: list_all2_Cons1)
qed

text \<open>The number of records a turn of the loop can observe in the file of a component,
  and the largest such number over a run.\<close>

definition observed :: "fs \<Rightarrow> string \<Rightarrow> nat" where
  "observed fs c =
     (case json_load fs (activity_file c) of
        Inr (JArr xs) \<Rightarrow> length xs
      | _ \<Rightarrow> 0)"

fun max_observed :: "tail_env list \<Rightarrow> string \<Rightarrow> nat" where
  "max_observed [] c = 0"
| "max_observed (e # es) c = max (observed (tail_files e) c) (max_observed es c)"

lemma tail_component_seen:
  "fst (tail_component fmt now fs c seen) c = seen c
   \<or> (\<exists>xs. json_load fs (activity_file c) = Inr (JArr xs)
         \<and> fst (tail_component fmt now fs c seen) c = Some xs)"
  by (auto simp: tail_component_def Let_def
      split: sum.splits error.splits json.splits option.splits prod.splits)

lemma tail_cycle_cursor:
  "cursor (fst (tail_cycle fmt e seen)) c = cursor seen c
   \<or> (\<exists>xs. json_load (tail_files e) (activity_file c) = Inr (JArr xs)
         \<and> cursor (fst (tail_cycle fmt e seen)) c = length xs)"
proof (cases "c \<in> set components")
  case True
  from tail_cycle_component(1) [OF True, of fmt e seen]
    tail_component_seen [of fmt "tail_clock e" "tail_files e" c seen]
  show ?thesis by (auto simp: cursor_def)
next
  case False
  then show ?thesis by (simp add: cursor_def tail_cycle_not_component)
qed

lemma tail_run_cursor:
  "cursor (fst (tail_run fmt es seen)) c \<le> max (cursor seen c) (max_observed es c)"
proof (induction es arbitrary: seen)
  case Nil
  then show ?case by simp
next
  case (Cons e es)
  obtain seen1 out1 where c1: "tail_cycle fmt e seen = (seen1, out1)"
    by (cases "tail_cycle fmt e seen") auto
  from tail_cycle_cursor [of fmt e seen c] c1
  have "cursor seen1 c \<le> max (cursor seen c) (observed (tail_files e) c)"
    by (auto simp: observed_def)
  moreover from Cons.IH [of seen1]
  have "cursor (fst (tail_run fmt es seen1)) c \<le> max (cursor seen1 c) (max_observed es c)" .
  ultimately show ?case
    using c1 by (auto split: prod.splits)
qed

lemma cursor_init_seen: "cursor init_seen c = 0"
  by (simp add: cursor_def init_seen_def map_of_map_restrict restrict_map_def)

text \<open>
  Claim C7, as stated, fails: the cursor decreases. The \<^verbatim>\<open>browser\<close> log holds three
  records in the first turn and is an empty list in the second; the cursor is 3 after the
  first turn and 0 after the second.
\<close>

theorem tail_cursor_decreases_counterexample:
  "cursor (fst (tail_run (\<lambda>t. Some ''00:00:00'')
      [\<lparr> tail_clock = 5,
         tail_files = one_file ''browser''
           (Json (JArr [JObj [(''time'', JNum 1)], JObj [(''time'', JNum 2)],
                        JObj [(''time'', JNum 3)]])),
         heartbeat_clock = 17 \<rparr>]
      init_seen)) ''browser'' = 3
   \<and> cursor (fst (tail_run (\<lambda>t. Some ''00:00:00'')
      [\<lparr> tail_clock = 5,
         tail_files = one_file ''browser''
           (Json (JArr [JObj [(''time'', JNum 1)], JObj [(''time'', JNum 2)],
                        JObj [(''time'', JNum 3)]])),
         heartbeat_clock = 17 \<rparr>,
       \<lparr> tail_clock = 6,
         tail_files = one_file ''browser'' (Json (JArr [])),
         heartbeat_clock = 17 \<rparr>]
      init_seen)) ''browser'' = 0"
  by (simp add: tail_cycle_def components_def tail_component_def path_exists_def
      one_file_def activity_file_def echo_dir_def json_load_def init_seen_def
      event_line_def dict_get_def heartbeat_not_due_17 cursor_def)

text \<open>
  Claim C7, amended. For every component in tail mode, the cursor after a turn of the
  loop is what it was or the number of records of the array just read; it decreases only
  when the file holds an array with fewer records than the cursor; and from the start of
  the loop it is at most the largest number of records observed in the file of the
  component so far.
\<close>

theorem tail_cursor_bounds:
  "(cursor (fst (tail_cycle fmt e seen)) c = cursor seen c
      \<or> cursor (fst (tail_cycle fmt e seen)) c = observed (tail_files e) c)
   \<and> (cursor (fst (tail_cycle fmt e seen)) c < cursor seen c
      \<longrightarrow> (\<exists>xs. json_load (tail_files e) (activity_file c) = Inr (JArr xs)
              \<and> length xs < cursor seen c))
   \<and> cursor (fst (tail_run fmt es init_seen)) c \<le> max_observed es c"
proof -
  from tail_cycle_cursor [of fmt e seen c]
  have "cursor (fst (tail_cycle fmt e seen)) c = cursor seen c
      \<or> cursor (fst (tail_cycle fmt e seen)) c = observed (tail_files e) c"
    by (auto simp: observed_def)
  moreover from tail_cycle_cursor [of fmt e seen c]
  have "cursor (fst (tail_cycle fmt e seen)) c < cursor seen c
      \<longrightarrow> (\<exists>xs. json_load (tail_files e) (activity_file c) = Inr (JArr xs)
              \<and> length xs < cursor seen c)"
    by auto
  moreover from tail_run_cursor [of fmt es init_seen c]
  have "cursor (fst (tail_run fmt es init_seen)) c \<le> max_observed es c"
    by (simp add: cursor_init_seen)
  ultimately show ?thesis by blast
qed

theorem tail_cursor_bounds_witness:
  "cursor (fst (tail_cycle (\<lambda>t. Some ''00:00:00'')
      \<lparr> tail_clock = 6, tail_files = one_file ''browser'' (Json (JArr [])),
        heartbeat_clock = 17 \<rparr>
      (init_seen(''browser'' \<mapsto> [JObj [(''time'', JNum 1)], JObj [(''time'', JNum 2)]]))))
     ''browser'' = 0
   \<and> cursor (init_seen(''browser'' \<mapsto> [JObj [(''time'', JNum 1)], JObj [(''time'', JNum 2)]]))
     ''browser'' = 2
   \<and> (\<exists>xs. json_load (one_file ''browser'' (Json (JArr []))) (activity_file ''browser'')
         = Inr (JArr xs) \<and> length xs < 2)"
proof -
  let ?e = "\<lparr> tail_clock = 6, tail_files = one_file ''browser'' (Json (JArr [])),
        heartbeat_clock = 17 \<rparr>"
  let ?seen = "init_seen(''browser'' \<mapsto> [JObj [(''time'', JNum 1)], JObj [(''time'', JNum 2)]])"
  have c: "''browser'' \<in> set components"
    by (simp add: components_def)
  have s: "?seen ''browser'' = Some [JObj [(''time'', JNum 1)], JObj [(''time'', JNum 2)]]"
    by simp
  have f: "tail_files ?e (activity_file ''browser'') = Some (File (Json (JArr [])))"
    by simp
  have l: "length ([] :: json list) \<le> length [JObj [(''time'', JNum 1)], JObj [(''time'', JNum 2)]]"
    by simp
  have t: "tail_component (\<lambda>t. Some ''00:00:00'') (tail_clock ?e) (tail_files ?e) ''browser'' ?seen
      = (?seen(''browser'' \<mapsto> []), [], False)"
    using s f l by (rule tail_component_shrink)
  have after: "cursor (fst (tail_cycle (\<lambda>t. Some ''00:00:00'') ?e ?seen)) ''browser'' = 0"
    using tail_cycle_component(1) [OF c, of "\<lambda>t. Some ''00:00:00''" ?e ?seen] t
    by (simp add: cursor_def)
  have before: "cursor ?seen ''browser'' = 2"
    by (simp add: cursor_def)
  from tail_cursor_bounds [of "\<lambda>t. Some ''00:00:00''" ?e ?seen "''browser''" "[]"] after before
  show ?thesis by simp
qed

end
